theory Spec2Isabelle
  imports Main "HOL-Library.Char_ord" "HOL-Library.List_Lexorder"
begin

section \<open>Strings\<close>

text \<open>
  Python strings are modelled as \<open>string\<close> (lists of 8-bit characters).  The names
  the tool handles (platform identifiers, file names, display names) are taken to be
  ASCII, where bytes and code points coincide; \<open>str.lower\<close> is then the map of the
  letters \<open>A\<close> to \<open>Z\<close> onto \<open>a\<close> to \<open>z\<close>.  \<open>sorted\<close> on strings is the
  lexicographic order of the character codes, which is the order of
  \<open>List_Lexorder\<close> over \<open>Char_ord\<close>.
\<close>

definition lower_char :: "char \<Rightarrow> char" where
  "lower_char c =
     (if (65::nat) \<le> of_char c \<and> (of_char c :: nat) \<le> 90
      then char_of ((of_char c :: nat) + 32) else c)"

definition lower :: "string \<Rightarrow> string" where
  "lower s = map lower_char s"



definition lib_spellings :: "string list" where
  "lib_spellings = [[a, b, c]. a \<leftarrow> ''lL'', b \<leftarrow> ''iI'', c \<leftarrow> ''bB'']"

text \<open>\<open>s.startswith(p)\<close>\<close>

definition startswith :: "string \<Rightarrow> string \<Rightarrow> bool" where
  "startswith s p = (take (length p) s = p)"

text \<open>\<open>s.endswith(e)\<close>, which is also \<open>fnmatch(s, '*' + e)\<close> for a literal \<open>e\<close>\<close>

definition endswith :: "string \<Rightarrow> string \<Rightarrow> bool" where
  "endswith s e = (length e \<le> length s \<and> drop (length s - length e) s = e)"

text \<open>\<open>s.lstrip('/')\<close>\<close>

definition lstrip_slash :: "string \<Rightarrow> string" where
  "lstrip_slash s = dropWhile (\<lambda>c. c = CHR ''/'') s"

section \<open>Platform catalog\<close>

text \<open>
  The dictionaries of the source are association lists in insertion order; their keys
  are distinct.  \<open>dict_get\<close> is \<open>d[k]\<close>, which raises \<open>KeyError\<close> on a missing key,
  and \<open>dict_set\<close> is \<open>d[k] = v\<close>: an existing key keeps its position, a new key goes
  to the end.
\<close>

datatype error =
    KeyError
  | FileExistsError
  | FileNotFoundError
  | NotADirectoryError
  | IsADirectoryError
  | CopytreeError

type_synonym ('k, 'v) dict = "('k \<times> 'v) list"

definition dict_get :: "('k, 'v) dict \<Rightarrow> 'k \<Rightarrow> error + 'v" where
  "dict_get d k = (case map_of d k of None \<Rightarrow> Inl KeyError | Some v \<Rightarrow> Inr v)"

fun dict_set :: "('k, 'v) dict \<Rightarrow> 'k \<Rightarrow> 'v \<Rightarrow> ('k, 'v) dict" where
  "dict_set [] k v = [(k, v)]"
| "dict_set ((k', v') # d) k v = (if k' = k then (k, v) # d else (k', v') # dict_set d k v)"

record platform_entry =
  repo :: string
  arch :: string
  os :: string
  pe_lib_name :: string
  pe_triple :: "string list"

definition shaftui_repo :: string where
  "shaftui_repo = ''https://github.com/ShaftUI/skia-pack''"

definition jetbrains_repo :: string where
  "jetbrains_repo = ''https://github.com/JetBrains/skia-pack''"

definition platforms :: "(string, platform_entry) dict" where
  "platforms =
    [(''macos-universal'',
        \<lparr>repo = jetbrains_repo, arch = ''arm64'', os = ''macos'', pe_lib_name = ''libskia.a'',
         pe_triple = [''x86_64-apple-macosx'', ''arm64-apple-macosx'']\<rparr>),
     (''linux-x64'',
        \<lparr>repo = shaftui_repo, arch = ''x64'', os = ''linux'', pe_lib_name = ''libskia.a'',
         pe_triple = [''x86_64-unknown-linux-gnu'']\<rparr>),
     (''linux-aarch64'',
        \<lparr>repo = shaftui_repo, arch = ''arm64'', os = ''linux'', pe_lib_name = ''libskia.a'',
         pe_triple = [''aarch64-unknown-linux-gnu'']\<rparr>),
     (''windows-x64'',
        \<lparr>repo = shaftui_repo, arch = ''x64'', os = ''windows'', pe_lib_name = ''skia.lib'',
         pe_triple = [''x86_64-unknown-windows-msvc'']\<rparr>)]"

record download_entry =
  dl_url :: string
  dl_lib_name :: string
  dl_triple :: "string list"
  dl_extract_path :: string

definition resolve :: "string \<Rightarrow> platform_entry \<Rightarrow> download_entry" where
  "resolve version info =
     \<lparr>dl_url = repo info @ ''/releases/download/'' @ version @ ''/Skia-'' @ version @ ''-''
              @ os info @ ''-Release-'' @ arch info @ ''.zip'',
      dl_lib_name = pe_lib_name info,
      dl_triple = pe_triple info,
      dl_extract_path = ''out/Release-'' @ os info @ ''-'' @ arch info\<rparr>"

text \<open>
  \<open>get_download_info\<close>: the loop over \<open>platforms.items()\<close> assigns one entry per
  catalog key into an empty dictionary.
\<close>

fun get_download_info_loop ::
  "string \<Rightarrow> (string, platform_entry) dict \<Rightarrow> (string, download_entry) dict
     \<Rightarrow> (string, download_entry) dict" where
  "get_download_info_loop version [] download_info = download_info"
| "get_download_info_loop version ((platform, info) # rest) download_info =
     get_download_info_loop version rest (dict_set download_info platform (resolve version info))"

definition get_download_info :: "string \<Rightarrow> (string, download_entry) dict" where
  "get_download_info version = get_download_info_loop version platforms []"

section \<open>Paths and the filesystem\<close>

text \<open>
  A \<open>pathlib\<close> path is the list of its components.  \<open>parse_path\<close> is what
  \<open>Path(dir) / s\<close> appends for a relative POSIX string \<open>s\<close>: the string is cut at
  \<open>/\<close>, and empty and \<open>.\<close> components are dropped (\<open>..\<close> is kept as a name: the
  model does not follow it to the parent directory).
\<close>

type_synonym path = "string list"

fun split_slash :: "string \<Rightarrow> string \<Rightarrow> string list" where
  "split_slash cur [] = [cur]"
| "split_slash cur (c # cs) =
     (if c = CHR ''/'' then cur # split_slash [] cs else split_slash (cur @ [c]) cs)"

definition parse_path :: "string \<Rightarrow> path" where
  "parse_path s = filter (\<lambda>c. c \<noteq> [] \<and> c \<noteq> ''.'') (split_slash [] s)"

text \<open>\<open>PurePath.suffix\<close> and \<open>PurePath.stem\<close> of a file name, by \<open>name.rfind('.')\<close>.\<close>

definition rfind_dot :: "string \<Rightarrow> int" where
  "rfind_dot name =
     (if CHR ''.'' \<in> set name
      then int (length name) - 1 - int (length (takeWhile (\<lambda>c. c \<noteq> CHR ''.'') (rev name)))
      else - 1)"

definition suffix_of :: "string \<Rightarrow> string" where
  "suffix_of name =
     (let i = rfind_dot name
      in if 0 < i \<and> i < int (length name) - 1 then drop (nat i) name else [])"

definition stem_of :: "string \<Rightarrow> string" where
  "stem_of name =
     (let i = rfind_dot name
      in if 0 < i \<and> i < int (length name) - 1 then take (nat i) name else name)"

text \<open>
  The manifest that \<open>json.dump\<close> writes is kept as a structured value: JSON objects
  with fixed keys are records, the \<open>artifacts\<close> object is a dictionary in insertion
  order, and an absent \<open>staticLibraryMetadata\<close> key is \<open>None\<close>.
\<close>

record metadata =
  headerPaths :: "string list"
  moduleMapPath :: string

record variant =
  v_path :: string
  supportedTriples :: "string list"
  staticLibraryMetadata :: "metadata option"

record artifact =
  a_version :: string
  a_type :: string
  variants :: "variant list"

record info_data =
  schemaVersion :: string
  artifacts :: "(string, artifact) dict"

text \<open>
  The temp directory and the bundle directory are two directory trees, each addressed
  by paths relative to its root; the bundle directory is taken to lie outside the temp
  directory, and the parents of both exist.  A directory lists its children in
  iteration order (\<open>os.scandir\<close>); a new child goes to the end.
\<close>

datatype data = Bytes string | Json info_data

datatype node = File data | Dir "(string \<times> node) list"

fun lookup :: "node \<Rightarrow> path \<Rightarrow> node option" where
  "lookup n [] = Some n"
| "lookup n (c # cs) =
     (case n of
        File d \<Rightarrow> None
      | Dir es \<Rightarrow> (case map_of es c of None \<Rightarrow> None | Some m \<Rightarrow> lookup m cs))"

definition exists :: "node \<Rightarrow> path \<Rightarrow> bool" where
  "exists n p = (lookup n p \<noteq> None)"

definition is_dir :: "node \<Rightarrow> path \<Rightarrow> bool" where
  "is_dir n p = (case lookup n p of Some (Dir es) \<Rightarrow> True | _ \<Rightarrow> False)"

definition is_file :: "node \<Rightarrow> path \<Rightarrow> bool" where
  "is_file n p = (case lookup n p of Some (File d) \<Rightarrow> True | _ \<Rightarrow> False)"

text \<open>
  \<open>put n p f\<close> walks to \<open>p\<close> and replaces what is there by \<open>f\<close> of it; a missing
  directory on the way is \<open>FileNotFoundError\<close>, a regular file on the way is
  \<open>NotADirectoryError\<close>.
\<close>

fun put :: "node \<Rightarrow> path \<Rightarrow> (node option \<Rightarrow> error + node) \<Rightarrow> error + node" where
  "put n [] f = f (Some n)"
| "put n (c # cs) f =
     (case n of
        File d \<Rightarrow> Inl NotADirectoryError
      | Dir es \<Rightarrow>
          (case map_of es c of
             None \<Rightarrow>
               (if cs = []
                then (case f None of Inl e \<Rightarrow> Inl e | Inr m \<Rightarrow> Inr (Dir (es @ [(c, m)])))
                else Inl FileNotFoundError)
           | Some m \<Rightarrow>
               (case put m cs f of Inl e \<Rightarrow> Inl e | Inr m' \<Rightarrow> Inr (Dir (dict_set es c m')))))"

text \<open>\<open>os.mkdir(p)\<close>\<close>

definition os_mkdir :: "node \<Rightarrow> path \<Rightarrow> error + node" where
  "os_mkdir n p =
     put n p (\<lambda>x. case x of None \<Rightarrow> Inr (Dir []) | Some m \<Rightarrow> Inl FileExistsError)"

text \<open>\<open>open(p, 'w')\<close> or \<open>open(p, 'wb')\<close>, followed by the write of \<open>d\<close>\<close>

definition open_w :: "node \<Rightarrow> path \<Rightarrow> data \<Rightarrow> error + node" where
  "open_w n p d =
     put n p (\<lambda>x. case x of Some (Dir es) \<Rightarrow> Inl IsADirectoryError | _ \<Rightarrow> Inr (File d))"

text \<open>
  \<open>Path.mkdir(parents, exist_ok)\<close>, as \<open>pathlib\<close> writes it: \<open>os.mkdir\<close> first; on
  \<open>FileNotFoundError\<close> with \<open>parents\<close> the parent is made and the directory again;
  on any other error the call returns when \<open>exist_ok\<close> holds and the path is a
  directory.
\<close>

function mkdir :: "node \<Rightarrow> path \<Rightarrow> bool \<Rightarrow> bool \<Rightarrow> error + node" where
  "mkdir n p parents exist_ok =
     (case os_mkdir n p of
        Inr n' \<Rightarrow> Inr n'
      | Inl e \<Rightarrow>
          (if e = FileNotFoundError
           then (if \<not> parents \<or> p = [] then Inl e
                 else (case mkdir n (butlast p) True True of
                         Inl e' \<Rightarrow> Inl e'
                       | Inr n' \<Rightarrow> mkdir n' p False exist_ok))
           else (if \<not> exist_ok \<or> \<not> is_dir n p then Inl e else Inr n)))"
  by pat_completeness auto
termination
  by (relation "measure (\<lambda>(n, p, parents, exist_ok). 2 * length p + (if parents then 1 else 0))")
    (auto simp: length_greater_0_conv [symmetric] simp del: length_greater_0_conv)

text \<open>
  A sequence of filesystem calls either runs through or stops at the first call that
  raises, with the tree as the calls before it left it.
\<close>

type_synonym 'a outcome = "node \<times> (error + 'a)"

definition attempt :: "node \<Rightarrow> error + node \<Rightarrow> unit outcome" where
  "attempt n r = (case r of Inl e \<Rightarrow> (n, Inl e) | Inr n' \<Rightarrow> (n', Inr ()))"

definition and_then :: "'a outcome \<Rightarrow> ('a \<Rightarrow> node \<Rightarrow> 'b outcome) \<Rightarrow> 'b outcome" where
  "and_then r f = (case r of (n, Inl e) \<Rightarrow> (n, Inl e) | (n, Inr x) \<Rightarrow> f x n)"

section \<open>Fetcher\<close>

text \<open>
  The network is a function from URLs to what \<open>urlretrieve\<close> gets: nothing when the
  retrieval raises, otherwise the bytes that are stored and, when they are a ZIP
  archive, its members by name and content in \<open>namelist()\<close> order.  When a name
  occurs twice, \<open>ZipFile.open(name)\<close> reads the last member of that name.
\<close>

type_synonym archive = "(string \<times> string) list"

type_synonym network = "string \<Rightarrow> (string \<times> archive option) option"

definition zip_open :: "archive \<Rightarrow> string \<Rightarrow> error + string" where
  "zip_open members member =
     (case map_of (rev members) member of None \<Rightarrow> Inl KeyError | Some content \<Rightarrow> Inr content)"

fun extract_loop ::
  "archive \<Rightarrow> string list \<Rightarrow> string \<Rightarrow> path \<Rightarrow> node \<Rightarrow> unit outcome" where
  "extract_loop members [] extract_path platform_dir temp = (temp, Inr ())"
| "extract_loop members (member # rest) extract_path platform_dir temp =
     (if startswith member extract_path
      then (let relative_path = lstrip_slash (drop (length extract_path) member)
            in if relative_path \<noteq> []
               then (let target_path = platform_dir @ parse_path relative_path
                     in case mkdir temp (butlast target_path) True True of
                          Inl e \<Rightarrow> (temp, Inl e)
                        | Inr temp1 \<Rightarrow>
                            (case zip_open members member of
                               Inl e \<Rightarrow> (temp1, Inl e)
                             | Inr content \<Rightarrow>
                                 (case open_w temp1 target_path (Bytes content) of
                                    Inl e \<Rightarrow> (temp1, Inl e)
                                  | Inr temp2 \<Rightarrow>
                                      extract_loop members rest extract_path platform_dir temp2)))
               else extract_loop members rest extract_path platform_dir temp)
      else extract_loop members rest extract_path platform_dir temp)"

text \<open>
  \<open>download_and_extract\<close> returns the temp tree it leaves and the platform directory,
  or \<open>None\<close> where the source returns \<open>None\<close> from one of its two handlers.
\<close>

definition download_and_extract ::
  "network \<Rightarrow> string \<Rightarrow> node \<Rightarrow> string \<Rightarrow> string \<Rightarrow> node \<times> path option" where
  "download_and_extract net url temp platform extract_path =
     (let zip_path = parse_path (platform @ ''.zip'');
          platform_dir = parse_path platform
      in case net url of
           None \<Rightarrow> (temp, None)
         | Some (raw, zip_ref) \<Rightarrow>
             (case open_w temp zip_path (Bytes raw) of
                Inl e \<Rightarrow> (temp, None)
              | Inr temp1 \<Rightarrow>
                  (case zip_ref of
                     None \<Rightarrow> (temp1, None)
                   | Some members \<Rightarrow>
                       (case extract_loop members (map fst members) extract_path platform_dir temp1 of
                          (temp2, Inl e) \<Rightarrow> (temp2, None)
                        | (temp2, Inr u) \<Rightarrow> (temp2, Some platform_dir)))))"

section \<open>Library Collector\<close>

record library_entry =
  le_file_name :: string
  le_lib_name :: string
  le_is_main :: bool

type_synonym libraries = "(string, library_entry list) dict"

text \<open>\<open>PurePath.name\<close>: the last component, empty for the path without components\<close>

definition name_of :: "path \<Rightarrow> string" where
  "name_of p = (if p = [] then [] else last p)"

text \<open>
  \<open>source_dir.rglob(pattern)\<close> for a pattern \<open>*<ext>\<close>: the children of a
  directory that match, then the same for each of its subdirectories, depth first.
  Nothing is found below a regular file.
\<close>

fun rglob :: "(string \<Rightarrow> bool) \<Rightarrow> path \<Rightarrow> node \<Rightarrow> (path \<times> node) list" where
  "rglob matches here (File d) = []"
| "rglob matches here (Dir es) =
     map (\<lambda>e. (here @ [fst e], snd e)) (filter (\<lambda>e. matches (fst e)) es)
     @ concat (map (\<lambda>e. rglob matches (here @ [fst e]) (snd e)) es)"

text \<open>
  \<open>shutil.copy2(src, dst)\<close> of the node \<open>src\<close> with base name \<open>name\<close>: a
  destination that is a directory receives the file under its base name.
\<close>

definition copy2 :: "node \<Rightarrow> string \<Rightarrow> path \<Rightarrow> node \<Rightarrow> error + node" where
  "copy2 src name dst bundle =
     (let dst' = (if is_dir bundle dst then dst @ parse_path name else dst)
      in case src of
           Dir es \<Rightarrow> Inl IsADirectoryError
         | File d \<Rightarrow> open_w bundle dst' d)"

definition is_windows :: "string \<Rightarrow> bool" where
  "is_windows platform = startswith platform ''windows''"

definition target_stem_of :: "string \<Rightarrow> string \<Rightarrow> string" where
  "target_stem_of platform original_stem =
     (if is_windows platform
      then (if startswith (lower original_stem) ''lib'' then drop 3 original_stem
            else original_stem)
      else original_stem)"

definition target_name_of :: "string \<Rightarrow> string \<Rightarrow> string" where
  "target_name_of platform name =
     (if is_windows platform
      then target_stem_of platform (stem_of name) @ suffix_of name
      else name)"

definition display_name_of :: "string \<Rightarrow> string" where
  "display_name_of target_stem =
     (if startswith target_stem ''lib'' then drop 3 target_stem else target_stem)"

definition entry_of :: "string \<Rightarrow> string \<Rightarrow> library_entry" where
  "entry_of platform name =
     (let target_stem = target_stem_of platform (stem_of name);
          target_name = target_name_of platform name;
          display_name = display_name_of target_stem
      in \<lparr>le_file_name = target_name, le_lib_name = display_name,
          le_is_main = (lower display_name = ''skia'')\<rparr>)"

text \<open>
  A scanned file passes the blacklist test of the loop when its name is not
  \<open>icudtl.dat\<close>; a library map is \<open>collected\<close> when each of its entries is the entry
  of some file name on its platform.
\<close>

definition not_blacklisted :: "path \<times> node \<Rightarrow> bool" where
  "not_blacklisted f = (name_of (fst f) \<noteq> ''icudtl.dat'')"

definition collected :: "libraries \<Rightarrow> bool" where
  "collected all_libraries =
     (\<forall>(platform, libs) \<in> set all_libraries. \<forall>e \<in> set libs. \<exists>name. e = entry_of platform name)"


text \<open>
  The loop over \<open>lib_files\<close>.  Besides the entries it returns the lines
  \<open>Copied <source> to <target>\<close> that it prints, as pairs of paths.
\<close>

type_synonym copy_log = "(path \<times> path) list"

fun copy_lib_files ::
  "string \<Rightarrow> path \<Rightarrow> (path \<times> node) list \<Rightarrow> library_entry list \<Rightarrow> copy_log \<Rightarrow> node
     \<Rightarrow> (library_entry list \<times> copy_log) outcome" where
  "copy_lib_files platform platform_dir [] platform_libraries log bundle =
     (bundle, Inr (platform_libraries, log))"
| "copy_lib_files platform platform_dir ((source_lib, src) # rest) platform_libraries log bundle =
     (if name_of source_lib \<in> set [''icudtl.dat'']
      then copy_lib_files platform platform_dir rest platform_libraries log bundle
      else (let target_lib = platform_dir @ parse_path (target_name_of platform (name_of source_lib))
            in case copy2 src (name_of source_lib) target_lib bundle of
                 Inl e \<Rightarrow> (bundle, Inl e)
               | Inr bundle1 \<Rightarrow>
                   copy_lib_files platform platform_dir rest
                     (platform_libraries @ [entry_of platform (name_of source_lib)])
                     (log @ [(source_lib, target_lib)]) bundle1))"

definition lib_files_of :: "string \<Rightarrow> path \<Rightarrow> node \<Rightarrow> (path \<times> node) list" where
  "lib_files_of platform source_dir src =
     (if is_windows platform
      then rglob (\<lambda>name. endswith name ''.lib'') source_dir src
      else rglob (\<lambda>name. endswith name ''.a'') source_dir src)"

fun copy_libraries_loop ::
  "node \<Rightarrow> (string, download_entry) dict \<Rightarrow> libraries \<Rightarrow> copy_log \<Rightarrow> node
     \<Rightarrow> (libraries \<times> copy_log) outcome" where
  "copy_libraries_loop temp [] all_libraries log bundle = (bundle, Inr (all_libraries, log))"
| "copy_libraries_loop temp ((platform, info) # rest) all_libraries log bundle =
     (let platform_dir = parse_path platform
      in case mkdir bundle platform_dir False True of
           Inl e \<Rightarrow> (bundle, Inl e)
         | Inr bundle1 \<Rightarrow>
             (let source_dir = parse_path platform
              in case lookup temp source_dir of
                   None \<Rightarrow> copy_libraries_loop temp rest all_libraries log bundle1
                 | Some src \<Rightarrow>
                     (case copy_lib_files platform platform_dir
                             (lib_files_of platform source_dir src) [] log bundle1 of
                        (bundle2, Inl e) \<Rightarrow> (bundle2, Inl e)
                      | (bundle2, Inr (platform_libraries, log')) \<Rightarrow>
                          copy_libraries_loop temp rest
                            (dict_set all_libraries platform platform_libraries) log' bundle2)))"

definition copy_libraries ::
  "node \<Rightarrow> node \<Rightarrow> (string, download_entry) dict \<Rightarrow> (libraries \<times> copy_log) outcome" where
  "copy_libraries bundle temp download_info = copy_libraries_loop temp download_info [] [] bundle"

section \<open>Manifest Builder\<close>

definition all_lib_names :: "libraries \<Rightarrow> string set" where
  "all_lib_names all_libraries =
     set (concat (map (\<lambda>(platform, platform_libs). map le_lib_name platform_libs) all_libraries))"

definition make_variant :: "string \<Rightarrow> download_entry \<Rightarrow> library_entry \<Rightarrow> variant" where
  "make_variant platform platform_info lib_info =
     \<lparr>v_path = platform @ ''/'' @ le_file_name lib_info,
      supportedTriples = dl_triple platform_info,
      staticLibraryMetadata =
        (if le_is_main lib_info
         then Some \<lparr>headerPaths = [''include''], moduleMapPath = ''module.modulemap''\<rparr>
         else None)\<rparr>"

text \<open>
  What the manifest is expected to hold for one library name: a platform
  \<open>has_lib\<close> the name when one of its entries has it as display name, and
  \<open>variant_of\<close> is the variant built from the first such entry of the platform.
\<close>

definition has_lib :: "string \<Rightarrow> string \<times> library_entry list \<Rightarrow> bool" where
  "has_lib name pl = (name \<in> le_lib_name ` set (snd pl))"

definition variant_of ::
  "string \<Rightarrow> (string, download_entry) dict \<Rightarrow> string \<times> library_entry list \<Rightarrow> variant" where
  "variant_of name download_info pl =
     make_variant (fst pl) (the (map_of download_info (fst pl)))
       (the (find (\<lambda>lib. le_lib_name lib = name) (snd pl)))"


text \<open>
  The loop over \<open>all_libraries.items()\<close> for one library name: \<open>download_info[platform]\<close>
  is read for every platform, and the first entry of the platform with the name, if
  any, gives a variant.
\<close>

fun variants_loop ::
  "string \<Rightarrow> (string, download_entry) dict \<Rightarrow> libraries \<Rightarrow> variant list
     \<Rightarrow> error + variant list" where
  "variants_loop name download_info [] vs = Inr vs"
| "variants_loop name download_info ((platform, platform_libs) # rest) vs =
     (case dict_get download_info platform of
        Inl e \<Rightarrow> Inl e
      | Inr platform_info \<Rightarrow>
          (case find (\<lambda>lib. le_lib_name lib = name) platform_libs of
             None \<Rightarrow> variants_loop name download_info rest vs
           | Some lib_info \<Rightarrow>
               variants_loop name download_info rest
                 (vs @ [make_variant platform platform_info lib_info])))"

fun artifacts_loop ::
  "string \<Rightarrow> (string, download_entry) dict \<Rightarrow> libraries \<Rightarrow> string list
     \<Rightarrow> (string, artifact) dict \<Rightarrow> error + (string, artifact) dict" where
  "artifacts_loop version download_info all_libraries [] arts = Inr arts"
| "artifacts_loop version download_info all_libraries (name # names) arts =
     (case variants_loop name download_info all_libraries [] of
        Inl e \<Rightarrow> Inl e
      | Inr vs \<Rightarrow>
          artifacts_loop version download_info all_libraries names
            (if vs \<noteq> []
             then dict_set arts name
                    \<lparr>a_version = version, a_type = ''staticLibrary'', variants = vs\<rparr>
             else arts))"

definition build_info_data ::
  "string \<Rightarrow> (string, download_entry) dict \<Rightarrow> libraries \<Rightarrow> error + info_data" where
  "build_info_data version download_info all_libraries =
     (case artifacts_loop version download_info all_libraries
             (sorted_list_of_set (all_lib_names all_libraries)) [] of
        Inl e \<Rightarrow> Inl e
      | Inr arts \<Rightarrow> Inr \<lparr>schemaVersion = ''1.0'', artifacts = arts\<rparr>)"

definition create_info_json ::
  "node \<Rightarrow> string \<Rightarrow> (string, download_entry) dict \<Rightarrow> libraries \<Rightarrow> unit outcome" where
  "create_info_json bundle version download_info all_libraries =
     (case build_info_data version download_info all_libraries of
        Inl e \<Rightarrow> (bundle, Inl e)
      | Inr info \<Rightarrow> attempt bundle (open_w bundle [''info.json''] (Json info)))"

section \<open>Module map and Header Assembler\<close>

definition unlines :: "string list \<Rightarrow> string" where
  "unlines ls = concat (map (\<lambda>l. l @ ''\<newline>'') ls)"

definition module_content :: string where
  \<open>module_content =
     ''module skia {\<newline>    header "include/skia.h"\<newline>    link "skia"\<newline>    export *\<newline>}''\<close>

definition create_module_map :: "node \<Rightarrow> unit outcome" where
  "create_module_map bundle =
     attempt bundle (open_w bundle [''module.modulemap''] (Bytes module_content))"

definition umbrella_content :: string where
  \<open>umbrella_content = unlines
     [''// Skia umbrella header'',
      ''#pragma once'',
      [],
      ''// Core Skia headers'',
      ''#include "core/SkTypes.h"'',
      ''#include "core/SkCanvas.h"'',
      ''#include "core/SkPaint.h"'',
      ''#include "core/SkPath.h"'',
      ''#include "core/SkSurface.h"'',
      ''#include "core/SkImage.h"'',
      ''#include "core/SkData.h"'',
      ''#include "core/SkString.h"'',
      ''#include "core/SkMatrix.h"'',
      ''#include "core/SkRect.h"'',
      ''#include "core/SkPoint.h"'',
      ''#include "core/SkSize.h"'',
      ''#include "core/SkColor.h"'',
      ''#include "core/SkColorSpace.h"'',
      ''#include "core/SkImageInfo.h"'',
      ''#include "core/SkPixmap.h"'',
      ''#include "core/SkRefCnt.h"'',
      ''#include "core/SkShader.h"'',
      ''#include "core/SkBlendMode.h"'',
      ''#include "core/SkColorType.h"'',
      ''#include "core/SkPicture.h"'',
      [],
      ''// GPU headers (optional)'',
      ''#ifdef SK_GANESH'',
      ''#include "gpu/GrDirectContext.h"'',
      ''#endif'',
      [],
      ''// Effects and utilities'',
      ''#include "effects/SkGradientShader.h"'',
      [],
      ''// SVG support'',
      ''#ifdef SK_SVG'',
      ''#include "svg/SkSVGCanvas.h"'',
      ''#endif'']\<close>

definition minimal_header :: "string \<Rightarrow> string" where
  "minimal_header version = unlines
     [''// Skia minimal header - Version '' @ version,
      ''#pragma once'',
      [],
      ''// Include core Skia functionality'',
      ''// Note: Headers were not found in the downloaded packages'',
      ''// You may need to include specific Skia headers manually'']"

text \<open>
  \<open>shutil.copytree(src, dst, dirs_exist_ok=True)\<close> from the temp tree into the
  bundle tree, with the errors it meets.  Listing a regular file fails, and so does
  \<open>os.makedirs(dst, exist_ok=True)\<close> (which succeeds and fails where
  \<open>Path.mkdir\<close> with both flags does); an entry that fails is recorded while the
  entries after it are still copied.  \<open>copytree\<close> raises when the list is not empty.
\<close>

fun copytree :: "node \<Rightarrow> path \<Rightarrow> node \<Rightarrow> node \<times> error list"
  and copytree_entries :: "(string \<times> node) list \<Rightarrow> path \<Rightarrow> node \<Rightarrow> node \<times> error list" where
  "copytree (File d) dst bundle = (bundle, [NotADirectoryError])"
| "copytree (Dir es) dst bundle =
     (case mkdir bundle dst True True of
        Inl e \<Rightarrow> (bundle, [e])
      | Inr bundle1 \<Rightarrow> copytree_entries es dst bundle1)"
| "copytree_entries [] dst bundle = (bundle, [])"
| "copytree_entries ((name, src) # rest) dst bundle =
     (let (bundle1, errors1) =
            (case src of
               Dir es \<Rightarrow> copytree src (dst @ parse_path name) bundle
             | File d \<Rightarrow>
                 (case copy2 src name (dst @ parse_path name) bundle of
                    Inl e \<Rightarrow> (bundle, [e])
                  | Inr bundle' \<Rightarrow> (bundle', [])));
          (bundle2, errors2) = copytree_entries rest dst bundle1
      in (bundle2, errors1 @ errors2))"

text \<open>
  The loop over \<open>temp_dir.iterdir()\<close>: the first child that is a directory and has
  an entry \<open>include\<close>, with that entry.
\<close>

fun header_source :: "(string \<times> node) list \<Rightarrow> (string \<times> node) option" where
  "header_source [] = None"
| "header_source ((name, platform_dir) # rest) =
     (case platform_dir of
        File d \<Rightarrow> header_source rest
      | Dir es \<Rightarrow>
          (case lookup platform_dir [''include''] of
             None \<Rightarrow> header_source rest
           | Some source_include_dir \<Rightarrow> Some (name, source_include_dir)))"

definition create_umbrella_header :: "node \<Rightarrow> node \<Rightarrow> string \<Rightarrow> unit outcome" where
  "create_umbrella_header bundle temp version =
     (let include_dir = [''include'']
      in case mkdir bundle include_dir False True of
           Inl e \<Rightarrow> (bundle, Inl e)
         | Inr bundle1 \<Rightarrow>
             (case temp of
                File d \<Rightarrow> (bundle1, Inl NotADirectoryError)
              | Dir es \<Rightarrow>
                  (case header_source es of
                     Some (name, source_include_dir) \<Rightarrow>
                       (case copytree source_include_dir include_dir bundle1 of
                          (bundle2, e # errors) \<Rightarrow> (bundle2, Inl CopytreeError)
                        | (bundle2, []) \<Rightarrow>
                            attempt bundle2
                              (open_w bundle2 (include_dir @ [''skia.h''])
                                 (Bytes umbrella_content)))
                   | None \<Rightarrow>
                       attempt bundle1
                         (open_w bundle1 (include_dir @ [''skia.h''])
                            (Bytes (minimal_header version))))))"

section \<open>The run\<close>

text \<open>
  How the process ends: it runs to the end of the assembly (the listing and the
  optional ZIP of the bundle that follow are not modelled), it calls \<open>sys.exit(n)\<close>,
  or an exception that nothing catches ends it, which is exit status 1.
\<close>

datatype ending = Completed | SysExit nat | Uncaught error


record run =
  status :: ending
  extracted_platforms :: "(string, download_entry) dict"
  temp_after :: "node option"
  bundle_after :: "node option"

text \<open>\<open>Path.mkdir(exist_ok=True)\<close> of the root of a tree, which may not exist yet\<close>

definition mkdir_root :: "node option \<Rightarrow> error + node" where
  "mkdir_root r =
     (case r of
        None \<Rightarrow> Inr (Dir [])
      | Some (Dir es) \<Rightarrow> Inr (Dir es)
      | Some (File d) \<Rightarrow> Inl FileExistsError)"

fun stage_loop ::
  "network \<Rightarrow> (string, download_entry) dict \<Rightarrow> (string, download_entry) dict \<Rightarrow> node
     \<Rightarrow> node \<times> (string, download_entry) dict" where
  "stage_loop net [] extracted temp = (temp, extracted)"
| "stage_loop net ((platform, info) # rest) extracted temp =
     (case download_and_extract net (dl_url info) temp platform (dl_extract_path info) of
        (temp', Some extracted_dir) \<Rightarrow>
          stage_loop net rest (dict_set extracted platform info) temp'
      | (temp', None) \<Rightarrow> stage_loop net rest extracted temp')"

definition assemble ::
  "node \<Rightarrow> node \<Rightarrow> string \<Rightarrow> (string, download_entry) dict \<Rightarrow> unit outcome" where
  "assemble bundle temp version extracted =
     and_then (create_module_map bundle) (\<lambda>u bundle1.
     and_then (create_umbrella_header bundle1 temp version) (\<lambda>u bundle2.
     and_then (copy_libraries bundle2 temp extracted) (\<lambda>(all_libraries, log) bundle3.
     create_info_json bundle3 version extracted all_libraries)))"

definition main :: "network \<Rightarrow> string \<Rightarrow> node option \<Rightarrow> node option \<Rightarrow> run" where
  "main net version temp0 bundle0 =
     (case mkdir_root temp0 of
        Inl e \<Rightarrow>
          \<lparr>status = Uncaught e, extracted_platforms = [], temp_after = temp0,
           bundle_after = bundle0\<rparr>
      | Inr temp \<Rightarrow>
          (case mkdir_root bundle0 of
             Inl e \<Rightarrow>
               \<lparr>status = Uncaught e, extracted_platforms = [], temp_after = Some temp,
                bundle_after = bundle0\<rparr>
           | Inr bundle \<Rightarrow>
               (let download_info = get_download_info version;
                    (temp', extracted) = stage_loop net download_info [] temp
                in if extracted = []
                   then \<lparr>status = SysExit 1, extracted_platforms = extracted,
                         temp_after = Some temp', bundle_after = Some bundle\<rparr>
                   else (case assemble bundle temp' version extracted of
                           (bundle', Inl e) \<Rightarrow>
                             \<lparr>status = Uncaught e, extracted_platforms = extracted,
                              temp_after = Some temp', bundle_after = Some bundle'\<rparr>
                         | (bundle', Inr u) \<Rightarrow>
                             \<lparr>status = Completed, extracted_platforms = extracted,
                              temp_after = Some temp', bundle_after = Some bundle'\<rparr>))))"

section \<open>Download URLs\<close>

lemma get_download_info_unfold:
  "get_download_info version =
     [(''macos-universal'', resolve version (snd (platforms ! 0))),
      (''linux-x64'', resolve version (snd (platforms ! 1))),
      (''linux-aarch64'', resolve version (snd (platforms ! 2))),
      (''windows-x64'', resolve version (snd (platforms ! 3)))]"
  by (simp add: get_download_info_def platforms_def)

text \<open>
  Claim C7.  For every version string, the download information has one entry per
  catalog platform, in catalog order, and its URL is
  \<open><repo>/releases/download/<version>/Skia-<version>-<os>-Release-<arch>.zip\<close> built from
  the catalog entry alone; the four resolved URLs are spelled out.  The function is
  total and pure: it has no error value and takes no filesystem or network state.
\<close>

theorem get_download_info_urls:
  "map (\<lambda>(platform, d). (platform, dl_url d)) (get_download_info version) =
     map (\<lambda>(platform, info). (platform,
            repo info @ ''/releases/download/'' @ version @ ''/Skia-'' @ version @ ''-''
              @ os info @ ''-Release-'' @ arch info @ ''.zip'')) platforms
   \<and> map (\<lambda>(platform, d). (platform, dl_url d)) (get_download_info version) =
     [(''macos-universal'',
         ''https://github.com/JetBrains/skia-pack/releases/download/'' @ version @ ''/Skia-''
           @ version @ ''-macos-Release-arm64.zip''),
      (''linux-x64'',
         ''https://github.com/ShaftUI/skia-pack/releases/download/'' @ version @ ''/Skia-''
           @ version @ ''-linux-Release-x64.zip''),
      (''linux-aarch64'',
         ''https://github.com/ShaftUI/skia-pack/releases/download/'' @ version @ ''/Skia-''
           @ version @ ''-linux-Release-arm64.zip''),
      (''windows-x64'',
         ''https://github.com/ShaftUI/skia-pack/releases/download/'' @ version @ ''/Skia-''
           @ version @ ''-windows-Release-x64.zip'')]"
  by (simp add: get_download_info_unfold platforms_def resolve_def shaftui_repo_def
      jetbrains_repo_def)

section \<open>The manifest's artifacts\<close>

lemma has_lib_find:
  "has_lib name (p, libs) \<longleftrightarrow> find (\<lambda>lib. le_lib_name lib = name) libs \<noteq> None"
  by (auto simp: find_None_iff has_lib_def)

lemma variants_loop_ok:
  "fst ` set all_libraries \<subseteq> fst ` set download_info \<Longrightarrow>
   variants_loop name download_info all_libraries vs =
     Inr (vs @ map (variant_of name download_info) (filter (has_lib name) all_libraries))"
proof (induction all_libraries arbitrary: vs)
  case Nil
  then show ?case by simp
next
  case (Cons pl rest)
  obtain platform libs where pl: "pl = (platform, libs)" by (cases pl)
  from Cons.prems pl have "platform \<in> fst ` set download_info" by simp
  then obtain info where info: "map_of download_info platform = Some info"
    by (metis domD dom_map_of_conv_image_fst)
  from Cons.prems have rest: "fst ` set rest \<subseteq> fst ` set download_info" by simp
  show ?case
  proof (cases "find (\<lambda>lib. le_lib_name lib = name) libs")
    case None
    then have "\<not> has_lib name (platform, libs)" by (simp add: has_lib_find)
    with None info pl Cons.IH [OF rest] show ?thesis by (simp add: dict_get_def)
  next
    case (Some lib)
    then have "has_lib name (platform, libs)" by (simp add: has_lib_find)
    with Some info pl Cons.IH [OF rest] show ?thesis
      by (simp add: dict_get_def variant_of_def)
  qed
qed

lemma dict_set_fresh: "k \<notin> fst ` set d \<Longrightarrow> dict_set d k v = d @ [(k, v)]"
  by (induction d) auto

lemma has_lib_names:
  "name \<in> all_lib_names all_libraries \<longleftrightarrow> filter (has_lib name) all_libraries \<noteq> []"
  by (force simp: all_lib_names_def has_lib_def filter_empty_conv)

lemma artifacts_loop_ok:
  assumes "fst ` set all_libraries \<subseteq> fst ` set download_info"
    and "distinct names" and "set names \<inter> fst ` set arts = {}"
    and "set names \<subseteq> all_lib_names all_libraries"
  shows "artifacts_loop version download_info all_libraries names arts =
     Inr (arts @ map (\<lambda>name. (name, \<lparr>a_version = version, a_type = ''staticLibrary'',
            variants = map (variant_of name download_info)
              (filter (has_lib name) all_libraries)\<rparr>)) names)"
  using assms(2-4)
proof (induction names arbitrary: arts)
  case Nil
  then show ?case by simp
next
  case (Cons name names)
  from Cons.prems have ne: "filter (has_lib name) all_libraries \<noteq> []"
    by (simp add: has_lib_names)
  from Cons.prems have fresh: "name \<notin> fst ` set arts" by auto
  let ?a = "\<lparr>a_version = version, a_type = ''staticLibrary'',
            variants = map (variant_of name download_info) (filter (has_lib name) all_libraries)\<rparr>"
  have "set names \<inter> fst ` set (arts @ [(name, ?a)]) = {}"
    using Cons.prems by auto
  with Cons.IH [of "arts @ [(name, ?a)]"] Cons.prems
  have "artifacts_loop version download_info all_libraries names (arts @ [(name, ?a)]) =
      Inr ((arts @ [(name, ?a)]) @ map (\<lambda>name. (name, \<lparr>a_version = version, a_type = ''staticLibrary'',
            variants = map (variant_of name download_info)
              (filter (has_lib name) all_libraries)\<rparr>)) names)"
    by simp
  with ne fresh show ?case
    by (simp add: variants_loop_ok [OF assms(1)] dict_set_fresh)
qed

lemma finite_all_lib_names: "finite (all_lib_names all_libraries)"
  unfolding all_lib_names_def by (rule finite_set)

lemma build_info_data_ok:
  assumes "fst ` set all_libraries \<subseteq> fst ` set download_info"
  shows "build_info_data version download_info all_libraries =
     Inr \<lparr>schemaVersion = ''1.0'',
          artifacts = map (\<lambda>name. (name, \<lparr>a_version = version, a_type = ''staticLibrary'',
            variants = map (variant_of name download_info)
              (filter (has_lib name) all_libraries)\<rparr>))
            (sorted_list_of_set (all_lib_names all_libraries))\<rparr>"
  using artifacts_loop_ok [OF assms, of "sorted_list_of_set (all_lib_names all_libraries)" "[]" version]
  by (simp add: build_info_data_def finite_all_lib_names)

section \<open>Collected libraries\<close>

lemma copy_lib_files_result:
  "copy_lib_files platform platform_dir lib_files libs0 log0 bundle = (bundle', Inr (libs, log)) \<Longrightarrow>
   libs = libs0 @ map (\<lambda>f. entry_of platform (name_of (fst f))) (filter not_blacklisted lib_files)
   \<and> log = log0 @ map (\<lambda>f. (fst f, platform_dir @ parse_path (target_name_of platform (name_of (fst f)))))
                    (filter not_blacklisted lib_files)"
proof (induction lib_files arbitrary: libs0 log0 "bundle")
  case Nil
  then show ?case by simp
next
  case (Cons f rest)
  obtain source_lib src where f: "f = (source_lib, src)" by (cases f)
  show ?case
  proof (cases "name_of source_lib = ''icudtl.dat''")
    case True
    with Cons.prems f have "copy_lib_files platform platform_dir rest libs0 log0 bundle = (bundle', Inr (libs, log))"
      by simp
    from Cons.IH [OF this] True f show ?thesis by (simp add: not_blacklisted_def)
  next
    case False
    let ?target = "platform_dir @ parse_path (target_name_of platform (name_of source_lib))"
    from Cons.prems f False obtain bundle1 where
      "copy2 src (name_of source_lib) ?target bundle = Inr bundle1"
      and "copy_lib_files platform platform_dir rest (libs0 @ [entry_of platform (name_of source_lib)])
             (log0 @ [(source_lib, ?target)]) bundle1 = (bundle', Inr (libs, log))"
      by (auto simp: Let_def split: sum.splits)
    from Cons.IH [OF this(2)] False f show ?thesis by (simp add: not_blacklisted_def)
  qed
qed




lemma set_dict_set: "set (dict_set d k v) \<subseteq> set d \<union> {(k, v)}"
  by (induction d) (auto split: if_splits)

lemma map_fst_dict_set:
  "map fst (dict_set d k v) = (if k \<in> set (map fst d) then map fst d else map fst d @ [k])"
  by (induction d) force+

lemma fst_dict_set: "fst ` set (dict_set d k v) = insert k (fst ` set d)"
proof -
  have "fst ` set (dict_set d k v) = set (map fst (dict_set d k v))" by simp
  also have "\<dots> = insert k (fst ` set d)"
    unfolding map_fst_dict_set by auto
  finally show ?thesis .
qed

lemma copy_libraries_loop_result:
  "copy_libraries_loop temp download_info libs0 log0 bundle = (bundle', Inr (all_libraries, log)) \<Longrightarrow>
   collected libs0 \<Longrightarrow>
   collected all_libraries \<and> fst ` set all_libraries \<subseteq> fst ` set libs0 \<union> fst ` set download_info"
proof (induction download_info arbitrary: libs0 log0 "bundle")
  case Nil
  then show ?case by simp
next
  case (Cons pi rest)
  obtain platform info where pi: "pi = (platform, info)" by (cases pi)
  from Cons.prems(1) pi obtain bundle1 where
    mk: "mkdir bundle (parse_path platform) False True = Inr bundle1"
    by (auto simp: Let_def split: sum.splits)
  show ?case
  proof (cases "lookup temp (parse_path platform)")
    case None
    with Cons.prems(1) pi mk have
      "copy_libraries_loop temp rest libs0 log0 bundle1 = (bundle', Inr (all_libraries, log))"
      by (simp add: Let_def)
    from Cons.IH [OF this Cons.prems(2)] pi show ?thesis by auto
  next
    case (Some src)
    let ?run = "copy_lib_files platform (parse_path platform)
                (lib_files_of platform (parse_path platform) src) [] log0 bundle1"
    from Cons.prems(1) pi mk Some have unfolded:
      "(case ?run of
          (bundle2, Inl e) \<Rightarrow> (bundle2, Inl e)
        | (bundle2, Inr (platform_libraries, log')) \<Rightarrow>
            copy_libraries_loop temp rest (dict_set libs0 platform platform_libraries) log' bundle2)
       = (bundle', Inr (all_libraries, log))"
      by (simp add: Let_def)
    obtain bundle2 r where run: "?run = (bundle2, r)" by (cases ?run)
    from unfolded run obtain platform_libraries log' where r: "r = Inr (platform_libraries, log')"
      by (cases r) auto
    from run r have files: "?run = (bundle2, Inr (platform_libraries, log'))" by simp
    from unfolded files have rest:
      "copy_libraries_loop temp rest (dict_set libs0 platform platform_libraries) log' bundle2
              = (bundle', Inr (all_libraries, log))"
      by simp
    from copy_lib_files_result [OF files]
    have "\<forall>e \<in> set platform_libraries. \<exists>name. e = entry_of platform name" by auto
    with Cons.prems(2) set_dict_set [of libs0 platform platform_libraries]
    have "collected (dict_set libs0 platform platform_libraries)"
      unfolding collected_def by blast
    from Cons.IH [OF rest this] pi show ?thesis by (auto simp: fst_dict_set)
  qed
qed

lemma copy_libraries_result:
  "copy_libraries bundle temp download_info = (bundle', Inr (all_libraries, log)) \<Longrightarrow>
   collected all_libraries \<and> fst ` set all_libraries \<subseteq> fst ` set download_info"
  using copy_libraries_loop_result [of temp download_info "[]" "[]" "bundle" bundle' all_libraries log]
  by (simp add: copy_libraries_def collected_def)







section \<open>Letter case\<close>

text \<open>
  What \<open>lower\<close> does to the two tests of the collector: the lower-cased name is
  \<open>skia\<close> exactly for the sixteen spellings, and the lower-cased stem starts with
  \<open>lib\<close> exactly when its first three characters are one of the eight spellings.
\<close>

lemma lower_char_eq_iff:
  assumes "(97::nat) \<le> of_char l" and "(of_char l::nat) \<le> 122"
  shows "lower_char c = l \<longleftrightarrow> c = l \<or> (of_char c :: nat) + 32 = of_char l"
proof (cases "(65::nat) \<le> of_char c \<and> (of_char c :: nat) \<le> 90")
  case True
  then have lc: "lower_char c = char_of ((of_char c :: nat) + 32)" by (simp add: lower_char_def)
  from True have "(of_char (char_of ((of_char c :: nat) + 32) :: char) :: nat) = of_char c + 32"
    by (simp add: of_char_of)
  with lc have "(of_char (lower_char c) :: nat) = of_char c + 32" by simp
  moreover from True assms have "c \<noteq> l" by auto
  ultimately show ?thesis
    by (metis of_char_eq_iff)
next
  case False
  then have "lower_char c = c" unfolding lower_char_def by (simp only: if_False)
  moreover from False assms have "(of_char c :: nat) + 32 \<noteq> of_char l" by auto
  ultimately show ?thesis by simp
qed

lemma lower_char_i: "lower_char c = CHR ''i'' \<longleftrightarrow> c = CHR ''i'' \<or> c = CHR ''I''"
  using lower_char_eq_iff [of "CHR ''i''" c] of_char_eq_iff [of c "CHR ''I''", where ?'a = nat] by simp
lemma lower_char_l: "lower_char c = CHR ''l'' \<longleftrightarrow> c = CHR ''l'' \<or> c = CHR ''L''"
  using lower_char_eq_iff [of "CHR ''l''" c] of_char_eq_iff [of c "CHR ''L''", where ?'a = nat] by simp
lemma lower_char_b: "lower_char c = CHR ''b'' \<longleftrightarrow> c = CHR ''b'' \<or> c = CHR ''B''"
  using lower_char_eq_iff [of "CHR ''b''" c] of_char_eq_iff [of c "CHR ''B''", where ?'a = nat] by simp


lemma lib_spellings_iff:
  "s \<in> set lib_spellings \<longleftrightarrow>
     (\<exists>a b c. s = [a, b, c] \<and> (a = CHR ''l'' \<or> a = CHR ''L'') \<and> (b = CHR ''i'' \<or> b = CHR ''I'')
        \<and> (c = CHR ''b'' \<or> c = CHR ''B''))"
  unfolding lib_spellings_def by auto


lemma lower_lib: "startswith (lower s) ''lib'' \<longleftrightarrow> take 3 s \<in> set lib_spellings"
proof -
  have "startswith (lower s) ''lib'' \<longleftrightarrow> lower (take 3 s) = ''lib''"
    by (simp add: startswith_def lower_def take_map eval_nat_numeral)
  also have "\<dots> \<longleftrightarrow>
     (\<exists>a b c. take 3 s = [a, b, c] \<and> lower_char a = CHR ''l'' \<and> lower_char b = CHR ''i''
        \<and> lower_char c = CHR ''b'')"
    unfolding lower_def by (auto simp: map_eq_Cons_conv)
  finally show ?thesis
    unfolding lib_spellings_iff lower_char_l lower_char_i lower_char_b .
qed


section \<open>Main entries of a platform\<close>




section \<open>The main flag and the static-library metadata\<close>




section \<open>The manifest of a run\<close>

lemma stage_loop_filter:
  "stage_loop net dl ex temp = (temp', ex') \<Longrightarrow> distinct (map fst dl) \<Longrightarrow>
   fst ` set ex \<inter> fst ` set dl = {} \<Longrightarrow>
   \<exists>S. ex' = ex @ filter (\<lambda>(platform, info). platform \<in> S) dl"
proof (induction dl arbitrary: ex temp)
  case Nil
  then show ?case by simp
next
  case (Cons pi rest)
  obtain platform info where pi: "pi = (platform, info)" by (cases pi)
  from Cons.prems(2) pi have fresh: "platform \<notin> fst ` set rest" and d: "distinct (map fst rest)"
    by auto
  from fresh have fresh': "\<And>x. (platform, x) \<notin> set rest" by force
  obtain temp1 r where dl:
    "download_and_extract net (dl_url info) temp platform (dl_extract_path info) = (temp1, r)"
    by (cases "download_and_extract net (dl_url info) temp platform (dl_extract_path info)")
  show ?case
  proof (cases r)
    case None
    with Cons.prems(1) pi dl have "stage_loop net rest ex temp1 = (temp', ex')" by simp
    from Cons.IH [OF this d] Cons.prems(3)
    obtain S where S: "ex' = ex @ filter (\<lambda>(platform, info). platform \<in> S) rest" by auto
    have "filter (\<lambda>(q, info). q \<in> S - {platform}) (pi # rest)
        = filter (\<lambda>(q, info). q \<in> S) rest"
      using fresh fresh' pi by (auto intro!: filter_cong)
    with S show ?thesis by metis
  next
    case (Some extracted_dir)
    from Cons.prems(3) pi have "platform \<notin> fst ` set ex" by auto
    then have ds: "dict_set ex platform info = ex @ [(platform, info)]" by (rule dict_set_fresh)
    from Cons.prems(1) pi dl Some ds have
      "stage_loop net rest (ex @ [(platform, info)]) temp1 = (temp', ex')" by simp
    moreover from Cons.prems(3) fresh pi
    have "fst ` set (ex @ [(platform, info)]) \<inter> fst ` set rest = {}" by auto
    ultimately obtain S where
      S: "ex' = (ex @ [(platform, info)]) @ filter (\<lambda>(platform, info). platform \<in> S) rest"
      using Cons.IH [OF _ d] by blast
    have "filter (\<lambda>(q, info). q \<in> insert platform S) (pi # rest)
        = (platform, info) # filter (\<lambda>(q, info). q \<in> S) rest"
      using fresh fresh' pi by (auto intro!: filter_cong)
    with S show ?thesis by (metis append.assoc append_Cons append_Nil)
  qed
qed

lemma copy_libraries_loop_keys:
  "copy_libraries_loop temp dl libs0 log0 b = (b', Inr (all_libraries, log)) \<Longrightarrow>
   distinct (map fst dl) \<Longrightarrow> fst ` set libs0 \<inter> fst ` set dl = {} \<Longrightarrow>
   \<exists>S. map fst all_libraries = map fst libs0 @ filter (\<lambda>platform. platform \<in> S) (map fst dl)"
proof (induction dl arbitrary: libs0 log0 b)
  case Nil
  then show ?case by simp
next
  case (Cons pi rest)
  obtain platform info where pi: "pi = (platform, info)" by (cases pi)
  from Cons.prems(2) pi have fresh: "platform \<notin> fst ` set rest" and d: "distinct (map fst rest)"
    by auto
  from fresh have fresh': "\<And>x. (platform, x) \<notin> set rest" by force
  from Cons.prems(3) have disj: "fst ` set libs0 \<inter> fst ` set rest = {}" by auto
  from Cons.prems(1) pi obtain b1 where
    mk: "mkdir b (parse_path platform) False True = Inr b1"
    by (cases "mkdir b (parse_path platform) False True") (simp_all add: Let_def del: mkdir.simps)
  show ?case
  proof (cases "lookup temp (parse_path platform)")
    case None
    with Cons.prems(1) pi mk have
      "copy_libraries_loop temp rest libs0 log0 b1 = (b', Inr (all_libraries, log))"
      by (simp add: Let_def del: mkdir.simps)
    from Cons.IH [OF this d disj]
    obtain S where S: "map fst all_libraries = map fst libs0 @ filter (\<lambda>q. q \<in> S) (map fst rest)"
      by blast
    have "filter (\<lambda>q. q \<in> S - {platform}) (map fst (pi # rest)) = filter (\<lambda>q. q \<in> S) (map fst rest)"
      using fresh fresh' pi by (auto intro!: filter_cong)
    with S show ?thesis by metis
  next
    case (Some src)
    let ?run = "copy_lib_files platform (parse_path platform)
                (lib_files_of platform (parse_path platform) src) [] log0 b1"
    from Cons.prems(1) pi mk Some have unfolded:
      "(case ?run of
          (b2, Inl e) \<Rightarrow> (b2, Inl e)
        | (b2, Inr (platform_libraries, log')) \<Rightarrow>
            copy_libraries_loop temp rest (dict_set libs0 platform platform_libraries) log' b2)
       = (b', Inr (all_libraries, log))"
      by (simp add: Let_def del: mkdir.simps)
    obtain b2 r where run: "?run = (b2, r)" by (cases ?run)
    from unfolded run obtain platform_libraries log' where r: "r = Inr (platform_libraries, log')"
      by (cases r) auto
    from Cons.prems(3) pi have "platform \<notin> fst ` set libs0" by auto
    then have ds: "dict_set libs0 platform platform_libraries = libs0 @ [(platform, platform_libraries)]"
      by (rule dict_set_fresh)
    from unfolded run r ds have rest:
      "copy_libraries_loop temp rest (libs0 @ [(platform, platform_libraries)]) log' b2
              = (b', Inr (all_libraries, log))"
      by simp
    from disj fresh have "fst ` set (libs0 @ [(platform, platform_libraries)]) \<inter> fst ` set rest = {}"
      by auto
    from Cons.IH [OF rest d this]
    obtain S where S: "map fst all_libraries =
        map fst (libs0 @ [(platform, platform_libraries)]) @ filter (\<lambda>q. q \<in> S) (map fst rest)"
      by blast
    have "filter (\<lambda>q. q \<in> insert platform S) (map fst (pi # rest))
        = platform # filter (\<lambda>q. q \<in> S) (map fst rest)"
      using fresh fresh' pi by (auto intro!: filter_cong)
    with S show ?thesis by (metis append.assoc append_Cons append_Nil list.simps(9) map_append fst_conv list.simps(8))
  qed
qed

lemma catalog_order:
  assumes "distinct (map fst cat)" and "map fst al = filter (\<lambda>p. p \<in> S) (map fst cat)"
  shows "concat (map (\<lambda>(p, libs). H p libs) al) =
         concat (map (\<lambda>(p, pe). case map_of al p of None \<Rightarrow> [] | Some libs \<Rightarrow> H p libs) cat)"
  using assms
proof (induction cat arbitrary: al)
  case Nil
  then show ?case by simp
next
  case (Cons c cat)
  obtain p pe where c: "c = (p, pe)" by (cases c)
  from Cons.prems(1) c have fresh: "p \<notin> fst ` set cat" and d: "distinct (map fst cat)" by auto
  show ?case
  proof (cases "p \<in> S")
    case True
    with Cons.prems(2) c obtain libs al' where al: "al = (p, libs) # al'"
      and al': "map fst al' = filter (\<lambda>p. p \<in> S) (map fst cat)"
      by (cases al) auto
    have other: "\<And>q x. (q, x) \<in> set cat \<Longrightarrow> map_of al q = map_of al' q"
      using fresh al by force
    have meq: "map (\<lambda>(p, pe). case map_of al p of None \<Rightarrow> [] | Some libs \<Rightarrow> H p libs) cat
        = map (\<lambda>(p, pe). case map_of al' p of None \<Rightarrow> [] | Some libs \<Rightarrow> H p libs) cat"
      by (rule map_cong [OF refl]) (auto simp: other simp del: map_of.simps)
    have "concat (map (\<lambda>(p, pe). case map_of al p of None \<Rightarrow> [] | Some libs \<Rightarrow> H p libs) cat)
        = concat (map (\<lambda>(p, libs). H p libs) al')"
      unfolding meq by (rule Cons.IH [OF d al', symmetric])
    moreover have "map_of al p = Some libs" using al by simp
    ultimately show ?thesis unfolding c al by (simp del: map_of.simps)
  next
    case False
    with Cons.prems(2) c have al: "map fst al = filter (\<lambda>p. p \<in> S) (map fst cat)" by simp
    then have "set (map fst al) \<subseteq> S" by auto
    with False have "p \<notin> fst ` set al" by auto
    then have "map_of al p = None" by (simp add: map_of_eq_None_iff)
    with Cons.IH [OF d al] c show ?thesis by simp
  qed
qed

lemma variants_concat:
  "map (variant_of name dl) (filter (has_lib name) al) =
   concat (map (\<lambda>(p, libs). case find (\<lambda>lib. le_lib_name lib = name) libs of
                                None \<Rightarrow> []
                              | Some lib \<Rightarrow> [make_variant p (the (map_of dl p)) lib]) al)"
proof (induction al)
  case Nil
  then show ?case by simp
next
  case (Cons pl al)
  obtain p libs where pl: "pl = (p, libs)" by (cases pl)
  show ?case
  proof (cases "find (\<lambda>lib. le_lib_name lib = name) libs")
    case None
    then have "\<not> has_lib name (p, libs)" by (simp add: has_lib_find)
    with None Cons pl show ?thesis by simp
  next
    case (Some lib)
    then have "has_lib name (p, libs)" by (simp add: has_lib_find)
    with Some Cons pl show ?thesis by (simp add: variant_of_def)
  qed
qed

lemma map_of_catalog:
  "(p, pe) \<in> set platforms \<Longrightarrow> map_of (get_download_info version) p = Some (resolve version pe)"
  unfolding get_download_info_unfold by (auto simp: platforms_def)

lemma distinct_catalog: "distinct (map fst platforms)"
  by (simp add: platforms_def)

lemma fst_download_info: "map fst (get_download_info version) = map fst platforms"
  unfolding get_download_info_unfold by (simp add: platforms_def)

lemma map_of_filter_keys:
  "map_of (filter (\<lambda>(k, v). k \<in> S) xs) k = (if k \<in> S then map_of xs k else None)"
  by (induction xs) auto

lemma all_lib_names_Union:
  "all_lib_names all_libraries = (\<Union>(platform, libs) \<in> set all_libraries. le_lib_name ` set libs)"
  by (auto simp: all_lib_names_def)

lemma staged_library_keys:
  assumes stage: "stage_loop net (get_download_info version) [] temp = (temp', extracted)"
    and copy: "copy_libraries b temp'' extracted = (b', Inr (all_libraries, log))"
  shows "\<exists>S. extracted = filter (\<lambda>(platform, info). platform \<in> S) (get_download_info version)"
    and "\<exists>S. map fst all_libraries = filter (\<lambda>platform. platform \<in> S) (map fst platforms)"
proof -
  have d: "distinct (map fst (get_download_info version))"
    by (simp add: fst_download_info distinct_catalog)
  from stage_loop_filter [OF stage d]
  obtain S1 where S1: "extracted = filter (\<lambda>(platform, info). platform \<in> S1) (get_download_info version)"
    by auto
  then show "\<exists>S. extracted = filter (\<lambda>(platform, info). platform \<in> S) (get_download_info version)" ..
  have keys1: "map fst extracted = filter (\<lambda>platform. platform \<in> S1) (map fst platforms)"
    unfolding S1 fst_download_info [symmetric, of version] filter_map
    by (simp add: comp_def case_prod_unfold)
  then have d1: "distinct (map fst extracted)" by (simp add: distinct_catalog)
  from copy_libraries_loop_keys [OF copy [unfolded copy_libraries_def] d1]
  obtain S2 where "map fst all_libraries = filter (\<lambda>platform. platform \<in> S2) (map fst extracted)"
    by auto
  with keys1 have "map fst all_libraries = filter (\<lambda>platform. platform \<in> S1 \<inter> S2) (map fst platforms)"
    by (simp add: conj_commute)
  then show "\<exists>S. map fst all_libraries = filter (\<lambda>platform. platform \<in> S) (map fst platforms)" ..
qed

text \<open>
  Claim C1.  For the platforms that the staging loop of a run returns and the library
  map that the collector returns for them, the manifest is built without error and is
  what \<open>create_info_json\<close> writes to \<open>info.json\<close>.  Its artifact keys are exactly
  the display names that occur in the library map, sorted and without repetition.  Every
  artifact has the version of the run and the type \<open>staticLibrary\<close>, and its variants
  are, for the platforms of the catalog in catalog order, one variant for each platform
  whose library list has an entry of that name (made from the first such entry: the
  file under the platform directory, the triples of the catalog entry, and the metadata
  when the entry is flagged main); no artifact has an empty variant list.
\<close>

theorem create_info_json_artifacts:
  assumes stage: "stage_loop net (get_download_info version) [] temp = (temp', extracted)"
    and copy: "copy_libraries bundle temp' extracted = (bundle', Inr (all_libraries, log))"
  shows "\<exists>info. build_info_data version extracted all_libraries = Inr info
     \<and> create_info_json bundle' version extracted all_libraries =
         attempt bundle' (open_w bundle' [''info.json''] (Json info))
     \<and> schemaVersion info = ''1.0''
     \<and> set (map fst (artifacts info)) = (\<Union>(platform, libs) \<in> set all_libraries. le_lib_name ` set libs)
     \<and> sorted (map fst (artifacts info))
     \<and> distinct (map fst (artifacts info))
     \<and> (\<forall>(name, a) \<in> set (artifacts info).
           a_version a = version \<and> a_type a = ''staticLibrary'' \<and> variants a \<noteq> []
           \<and> variants a =
               concat (map (\<lambda>(platform, pe).
                      case map_of all_libraries platform of
                        None \<Rightarrow> []
                      | Some libs \<Rightarrow>
                          (case find (\<lambda>lib. le_lib_name lib = name) libs of
                             None \<Rightarrow> []
                           | Some lib \<Rightarrow>
                               [\<lparr>v_path = platform @ ''/'' @ le_file_name lib,
                                 supportedTriples = pe_triple pe,
                                 staticLibraryMetadata =
                                   (if le_is_main lib
                                    then Some \<lparr>headerPaths = [''include''],
                                               moduleMapPath = ''module.modulemap''\<rparr>
                                    else None)\<rparr>])) platforms))"
proof -
  from staged_library_keys [OF stage copy]
  obtain S1 S where S1: "extracted = filter (\<lambda>(platform, info). platform \<in> S1) (get_download_info version)"
    and S: "map fst all_libraries = filter (\<lambda>platform. platform \<in> S) (map fst platforms)"
    by blast
  from copy_libraries_result [OF copy]
  have keys: "fst ` set all_libraries \<subseteq> fst ` set extracted" by simp
  let ?names = "sorted_list_of_set (all_lib_names all_libraries)"
  let ?vs = "\<lambda>name. map (variant_of name extracted) (filter (has_lib name) all_libraries)"
  let ?art = "\<lambda>name. (name, \<lparr>a_version = version, a_type = ''staticLibrary'', variants = ?vs name\<rparr>)"
  let ?info = "\<lparr>schemaVersion = ''1.0'', artifacts = map ?art ?names\<rparr>"
  have built: "build_info_data version extracted all_libraries = Inr ?info"
    by (rule build_info_data_ok [OF keys])
  have names: "map fst (artifacts ?info) = ?names"
    by (simp add: comp_def)
  have vs: "?vs name = concat (map (\<lambda>(platform, pe).
                      case map_of all_libraries platform of
                        None \<Rightarrow> []
                      | Some libs \<Rightarrow>
                          (case find (\<lambda>lib. le_lib_name lib = name) libs of
                             None \<Rightarrow> []
                           | Some lib \<Rightarrow>
                               [\<lparr>v_path = platform @ ''/'' @ le_file_name lib,
                                 supportedTriples = pe_triple pe,
                                 staticLibraryMetadata =
                                   (if le_is_main lib
                                    then Some \<lparr>headerPaths = [''include''],
                                               moduleMapPath = ''module.modulemap''\<rparr>
                                    else None)\<rparr>])) platforms)" for name
  proof -
    let ?H = "\<lambda>p libs. case find (\<lambda>lib. le_lib_name lib = name) libs of
                                None \<Rightarrow> []
                              | Some lib \<Rightarrow> [make_variant p (the (map_of extracted p)) lib]"
    have "?vs name = concat (map (\<lambda>(p, libs). ?H p libs) all_libraries)"
      by (rule variants_concat)
    also have "\<dots> = concat (map (\<lambda>(p, pe). case map_of all_libraries p of
                                    None \<Rightarrow> [] | Some libs \<Rightarrow> ?H p libs) platforms)"
      by (rule catalog_order [OF distinct_catalog S])
    also have "map (\<lambda>(p, pe). case map_of all_libraries p of
                                    None \<Rightarrow> [] | Some libs \<Rightarrow> ?H p libs) platforms
       = map (\<lambda>(platform, pe).
                      case map_of all_libraries platform of
                        None \<Rightarrow> []
                      | Some libs \<Rightarrow>
                          (case find (\<lambda>lib. le_lib_name lib = name) libs of
                             None \<Rightarrow> []
                           | Some lib \<Rightarrow>
                               [\<lparr>v_path = platform @ ''/'' @ le_file_name lib,
                                 supportedTriples = pe_triple pe,
                                 staticLibraryMetadata =
                                   (if le_is_main lib
                                    then Some \<lparr>headerPaths = [''include''],
                                               moduleMapPath = ''module.modulemap''\<rparr>
                                    else None)\<rparr>])) platforms"
    proof (rule map_cong [OF refl], clarify)
      fix p pe
      assume mem: "(p, pe) \<in> set platforms"
      show "(case map_of all_libraries p of None \<Rightarrow> [] | Some libs \<Rightarrow> ?H p libs) =
            (case map_of all_libraries p of
                        None \<Rightarrow> []
                      | Some libs \<Rightarrow>
                          (case find (\<lambda>lib. le_lib_name lib = name) libs of
                             None \<Rightarrow> []
                           | Some lib \<Rightarrow>
                               [\<lparr>v_path = p @ ''/'' @ le_file_name lib,
                                 supportedTriples = pe_triple pe,
                                 staticLibraryMetadata =
                                   (if le_is_main lib
                                    then Some \<lparr>headerPaths = [''include''],
                                               moduleMapPath = ''module.modulemap''\<rparr>
                                    else None)\<rparr>]))"
      proof (cases "map_of all_libraries p")
        case None
        then show ?thesis by simp
      next
        case (Some libs)
        then have "(p, libs) \<in> set all_libraries" by (rule map_of_SomeD)
        then have "p \<in> fst ` set all_libraries" by force
        with keys have "p \<in> fst ` set extracted" by auto
        then have "p \<in> S1" unfolding S1 by auto
        then have "map_of extracted p = Some (resolve version pe)"
          unfolding S1 by (simp add: map_of_filter_keys map_of_catalog [OF mem])
        with Some show ?thesis
          by (simp add: make_variant_def resolve_def split: option.splits)
      qed
    qed
    finally show ?thesis .
  qed
  have arts: "\<forall>(name, a) \<in> set (artifacts ?info).
           a_version a = version \<and> a_type a = ''staticLibrary'' \<and> variants a \<noteq> []
           \<and> variants a = ?vs name"
    by (auto simp: finite_all_lib_names has_lib_names)
  have "set (map fst (artifacts ?info)) = (\<Union>(platform, libs) \<in> set all_libraries. le_lib_name ` set libs)"
    unfolding names all_lib_names_Union [symmetric] by (simp add: finite_all_lib_names)
  moreover have "sorted (map fst (artifacts ?info))" "distinct (map fst (artifacts ?info))"
    unfolding names by simp_all
  moreover have "create_info_json bundle' version extracted all_libraries =
         attempt bundle' (open_w bundle' [''info.json''] (Json ?info))"
    by (simp add: create_info_json_def built)
  moreover have "schemaVersion ?info = ''1.0''" by simp
  moreover from arts have "\<forall>(name, a) \<in> set (artifacts ?info).
           a_version a = version \<and> a_type a = ''staticLibrary'' \<and> variants a \<noteq> []
           \<and> variants a = concat (map (\<lambda>(platform, pe).
                      case map_of all_libraries platform of
                        None \<Rightarrow> []
                      | Some libs \<Rightarrow>
                          (case find (\<lambda>lib. le_lib_name lib = name) libs of
                             None \<Rightarrow> []
                           | Some lib \<Rightarrow>
                               [\<lparr>v_path = platform @ ''/'' @ le_file_name lib,
                                 supportedTriples = pe_triple pe,
                                 staticLibraryMetadata =
                                   (if le_is_main lib
                                    then Some \<lparr>headerPaths = [''include''],
                                               moduleMapPath = ''module.modulemap''\<rparr>
                                    else None)\<rparr>])) platforms)"
    unfolding vs .
  ultimately show ?thesis using built by blast
qed

theorem create_info_json_artifacts_witness:
  "stage_loop (\<lambda>u. if u = dl_url (resolve ''m126'' (snd (platforms ! 1)))
          then Some (''zip'', Some [(''out/Release-linux-x64/libskia.a'', ''S''),
                                    (''out/Release-linux-x64/libpng.a'', ''P'')])
          else if u = dl_url (resolve ''m126'' (snd (platforms ! 3)))
          then Some (''zip'', Some [(''out/Release-windows-x64/skia.lib'', ''W'')])
          else None) (get_download_info ''m126'') [] (Dir []) =
     ((Dir [(''linux-x64.zip'', File (Bytes ''zip'')),
          (''linux-x64'', Dir [(''libskia.a'', File (Bytes ''S'')), (''libpng.a'', File (Bytes ''P''))]),
          (''windows-x64.zip'', File (Bytes ''zip'')),
          (''windows-x64'', Dir [(''skia.lib'', File (Bytes ''W''))])]),
      [(''linux-x64'', resolve ''m126'' (snd (platforms ! 1))),
         (''windows-x64'', resolve ''m126'' (snd (platforms ! 3)))])
   \<and> copy_libraries (Dir []) (Dir [(''linux-x64.zip'', File (Bytes ''zip'')),
          (''linux-x64'', Dir [(''libskia.a'', File (Bytes ''S'')), (''libpng.a'', File (Bytes ''P''))]),
          (''windows-x64.zip'', File (Bytes ''zip'')),
          (''windows-x64'', Dir [(''skia.lib'', File (Bytes ''W''))])])
       [(''linux-x64'', resolve ''m126'' (snd (platforms ! 1))),
         (''windows-x64'', resolve ''m126'' (snd (platforms ! 3)))] =
     ((Dir [(''linux-x64'', Dir [(''libskia.a'', File (Bytes ''S'')), (''libpng.a'', File (Bytes ''P''))]),
          (''windows-x64'', Dir [(''skia.lib'', File (Bytes ''W''))])]),
      Inr ([(''linux-x64'',
          [\<lparr>le_file_name = ''libskia.a'', le_lib_name = ''skia'', le_is_main = True\<rparr>,
           \<lparr>le_file_name = ''libpng.a'', le_lib_name = ''png'', le_is_main = False\<rparr>]),
         (''windows-x64'',
          [\<lparr>le_file_name = ''skia.lib'', le_lib_name = ''skia'', le_is_main = True\<rparr>])],
           [([''linux-x64'', ''libskia.a''], [''linux-x64'', ''libskia.a'']),
         ([''linux-x64'', ''libpng.a''], [''linux-x64'', ''libpng.a'']),
         ([''windows-x64'', ''skia.lib''], [''windows-x64'', ''skia.lib''])]))
   \<and> build_info_data ''m126''
       [(''linux-x64'', resolve ''m126'' (snd (platforms ! 1))),
         (''windows-x64'', resolve ''m126'' (snd (platforms ! 3)))]
       [(''linux-x64'',
          [\<lparr>le_file_name = ''libskia.a'', le_lib_name = ''skia'', le_is_main = True\<rparr>,
           \<lparr>le_file_name = ''libpng.a'', le_lib_name = ''png'', le_is_main = False\<rparr>]),
         (''windows-x64'',
          [\<lparr>le_file_name = ''skia.lib'', le_lib_name = ''skia'', le_is_main = True\<rparr>])] =
     Inr \<lparr>schemaVersion = ''1.0'',
        artifacts =
          [(''png'',
            \<lparr>a_version = ''m126'', a_type = ''staticLibrary'',
             variants =
               [\<lparr>v_path = ''linux-x64/libpng.a'',
                 supportedTriples = [''x86_64-unknown-linux-gnu''],
                 staticLibraryMetadata = None\<rparr>]\<rparr>),
           (''skia'',
            \<lparr>a_version = ''m126'', a_type = ''staticLibrary'',
             variants =
               [\<lparr>v_path = ''linux-x64/libskia.a'',
                 supportedTriples = [''x86_64-unknown-linux-gnu''],
                 staticLibraryMetadata =
                   Some \<lparr>headerPaths = [''include''], moduleMapPath = ''module.modulemap''\<rparr>\<rparr>,
                \<lparr>v_path = ''windows-x64/skia.lib'',
                 supportedTriples = [''x86_64-unknown-windows-msvc''],
                 staticLibraryMetadata =
                   Some \<lparr>headerPaths = [''include''], moduleMapPath = ''module.modulemap''\<rparr>\<rparr>]\<rparr>)]\<rparr>
   \<and> (\<exists>info. build_info_data ''m126'' [(''linux-x64'', resolve ''m126'' (snd (platforms ! 1))),
         (''windows-x64'', resolve ''m126'' (snd (platforms ! 3)))] [(''linux-x64'',
          [\<lparr>le_file_name = ''libskia.a'', le_lib_name = ''skia'', le_is_main = True\<rparr>,
           \<lparr>le_file_name = ''libpng.a'', le_lib_name = ''png'', le_is_main = False\<rparr>]),
         (''windows-x64'',
          [\<lparr>le_file_name = ''skia.lib'', le_lib_name = ''skia'', le_is_main = True\<rparr>])] = Inr info
     \<and> create_info_json (Dir [(''linux-x64'', Dir [(''libskia.a'', File (Bytes ''S'')), (''libpng.a'', File (Bytes ''P''))]),
          (''windows-x64'', Dir [(''skia.lib'', File (Bytes ''W''))])]) ''m126'' [(''linux-x64'', resolve ''m126'' (snd (platforms ! 1))),
         (''windows-x64'', resolve ''m126'' (snd (platforms ! 3)))] [(''linux-x64'',
          [\<lparr>le_file_name = ''libskia.a'', le_lib_name = ''skia'', le_is_main = True\<rparr>,
           \<lparr>le_file_name = ''libpng.a'', le_lib_name = ''png'', le_is_main = False\<rparr>]),
         (''windows-x64'',
          [\<lparr>le_file_name = ''skia.lib'', le_lib_name = ''skia'', le_is_main = True\<rparr>])] =
         attempt (Dir [(''linux-x64'', Dir [(''libskia.a'', File (Bytes ''S'')), (''libpng.a'', File (Bytes ''P''))]),
          (''windows-x64'', Dir [(''skia.lib'', File (Bytes ''W''))])]) (open_w (Dir [(''linux-x64'', Dir [(''libskia.a'', File (Bytes ''S'')), (''libpng.a'', File (Bytes ''P''))]),
          (''windows-x64'', Dir [(''skia.lib'', File (Bytes ''W''))])]) [''info.json''] (Json info))
     \<and> schemaVersion info = ''1.0''
     \<and> set (map fst (artifacts info)) = (\<Union>(platform, libs) \<in> set [(''linux-x64'',
          [\<lparr>le_file_name = ''libskia.a'', le_lib_name = ''skia'', le_is_main = True\<rparr>,
           \<lparr>le_file_name = ''libpng.a'', le_lib_name = ''png'', le_is_main = False\<rparr>]),
         (''windows-x64'',
          [\<lparr>le_file_name = ''skia.lib'', le_lib_name = ''skia'', le_is_main = True\<rparr>])]. le_lib_name ` set libs)
     \<and> sorted (map fst (artifacts info))
     \<and> distinct (map fst (artifacts info))
     \<and> (\<forall>(name, a) \<in> set (artifacts info).
           a_version a = ''m126'' \<and> a_type a = ''staticLibrary'' \<and> variants a \<noteq> []
           \<and> variants a =
               concat (map (\<lambda>(platform, pe).
                      case map_of [(''linux-x64'',
          [\<lparr>le_file_name = ''libskia.a'', le_lib_name = ''skia'', le_is_main = True\<rparr>,
           \<lparr>le_file_name = ''libpng.a'', le_lib_name = ''png'', le_is_main = False\<rparr>]),
         (''windows-x64'',
          [\<lparr>le_file_name = ''skia.lib'', le_lib_name = ''skia'', le_is_main = True\<rparr>])] platform of
                        None \<Rightarrow> []
                      | Some libs \<Rightarrow>
                          (case find (\<lambda>lib. le_lib_name lib = name) libs of
                             None \<Rightarrow> []
                           | Some lib \<Rightarrow>
                               [\<lparr>v_path = platform @ ''/'' @ le_file_name lib,
                                 supportedTriples = pe_triple pe,
                                 staticLibraryMetadata =
                                   (if le_is_main lib
                                    then Some \<lparr>headerPaths = [''include''],
                                               moduleMapPath = ''module.modulemap''\<rparr>
                                    else None)\<rparr>])) platforms)))"
proof -
  have stage: "stage_loop (\<lambda>u. if u = dl_url (resolve ''m126'' (snd (platforms ! 1)))
          then Some (''zip'', Some [(''out/Release-linux-x64/libskia.a'', ''S''),
                                    (''out/Release-linux-x64/libpng.a'', ''P'')])
          else if u = dl_url (resolve ''m126'' (snd (platforms ! 3)))
          then Some (''zip'', Some [(''out/Release-windows-x64/skia.lib'', ''W'')])
          else None) (get_download_info ''m126'') [] (Dir []) =
     ((Dir [(''linux-x64.zip'', File (Bytes ''zip'')),
          (''linux-x64'', Dir [(''libskia.a'', File (Bytes ''S'')), (''libpng.a'', File (Bytes ''P''))]),
          (''windows-x64.zip'', File (Bytes ''zip'')),
          (''windows-x64'', Dir [(''skia.lib'', File (Bytes ''W''))])]),
      [(''linux-x64'', resolve ''m126'' (snd (platforms ! 1))),
         (''windows-x64'', resolve ''m126'' (snd (platforms ! 3)))])"
    by code_simp
  have copy: "copy_libraries (Dir []) (Dir [(''linux-x64.zip'', File (Bytes ''zip'')),
          (''linux-x64'', Dir [(''libskia.a'', File (Bytes ''S'')), (''libpng.a'', File (Bytes ''P''))]),
          (''windows-x64.zip'', File (Bytes ''zip'')),
          (''windows-x64'', Dir [(''skia.lib'', File (Bytes ''W''))])])
       [(''linux-x64'', resolve ''m126'' (snd (platforms ! 1))),
         (''windows-x64'', resolve ''m126'' (snd (platforms ! 3)))] =
     ((Dir [(''linux-x64'', Dir [(''libskia.a'', File (Bytes ''S'')), (''libpng.a'', File (Bytes ''P''))]),
          (''windows-x64'', Dir [(''skia.lib'', File (Bytes ''W''))])]),
      Inr ([(''linux-x64'',
          [\<lparr>le_file_name = ''libskia.a'', le_lib_name = ''skia'', le_is_main = True\<rparr>,
           \<lparr>le_file_name = ''libpng.a'', le_lib_name = ''png'', le_is_main = False\<rparr>]),
         (''windows-x64'',
          [\<lparr>le_file_name = ''skia.lib'', le_lib_name = ''skia'', le_is_main = True\<rparr>])],
           [([''linux-x64'', ''libskia.a''], [''linux-x64'', ''libskia.a'']),
         ([''linux-x64'', ''libpng.a''], [''linux-x64'', ''libpng.a'']),
         ([''windows-x64'', ''skia.lib''], [''windows-x64'', ''skia.lib''])]))"
    by code_simp
  have lit: "build_info_data ''m126''
       [(''linux-x64'', resolve ''m126'' (snd (platforms ! 1))),
         (''windows-x64'', resolve ''m126'' (snd (platforms ! 3)))]
       [(''linux-x64'',
          [\<lparr>le_file_name = ''libskia.a'', le_lib_name = ''skia'', le_is_main = True\<rparr>,
           \<lparr>le_file_name = ''libpng.a'', le_lib_name = ''png'', le_is_main = False\<rparr>]),
         (''windows-x64'',
          [\<lparr>le_file_name = ''skia.lib'', le_lib_name = ''skia'', le_is_main = True\<rparr>])] =
     Inr \<lparr>schemaVersion = ''1.0'',
        artifacts =
          [(''png'',
            \<lparr>a_version = ''m126'', a_type = ''staticLibrary'',
             variants =
               [\<lparr>v_path = ''linux-x64/libpng.a'',
                 supportedTriples = [''x86_64-unknown-linux-gnu''],
                 staticLibraryMetadata = None\<rparr>]\<rparr>),
           (''skia'',
            \<lparr>a_version = ''m126'', a_type = ''staticLibrary'',
             variants =
               [\<lparr>v_path = ''linux-x64/libskia.a'',
                 supportedTriples = [''x86_64-unknown-linux-gnu''],
                 staticLibraryMetadata =
                   Some \<lparr>headerPaths = [''include''], moduleMapPath = ''module.modulemap''\<rparr>\<rparr>,
                \<lparr>v_path = ''windows-x64/skia.lib'',
                 supportedTriples = [''x86_64-unknown-windows-msvc''],
                 staticLibraryMetadata =
                   Some \<lparr>headerPaths = [''include''], moduleMapPath = ''module.modulemap''\<rparr>\<rparr>]\<rparr>)]\<rparr>"
    by code_simp
  note t = create_info_json_artifacts [OF stage copy]
  show ?thesis by (rule conjI [OF stage conjI [OF copy conjI [OF lit t]]])
qed

section \<open>Directory markers in an archive\<close>

text \<open>
  Claim C4.  The extraction skips a member only when nothing is left of its name after
  the prefix and the slashes that follow it, which is the marker of the extraction
  directory itself.  The marker of a directory below it, here
  \<open>out/Release-linux-x64/include/\<close>, leaves the relative path \<open>include/\<close>: the
  loop writes an empty regular file \<open>include\<close>, and the next member below that
  directory fails in \<open>mkdir\<close>, so that the whole extraction returns \<open>None\<close>.  With
  the marker alone the extraction succeeds and the regular file stays.
\<close>

theorem nested_directory_marker_is_written:
  "download_and_extract
     (\<lambda>u. Some (''zip'', Some [(''out/Release-linux-x64/include/'', ''''),
                                (''out/Release-linux-x64/include/a.h'', ''H'')]))
     (dl_url (resolve ''m126'' (snd (platforms ! 1)))) (Dir []) ''linux-x64''
     ''out/Release-linux-x64''
   = (Dir [(''linux-x64.zip'', File (Bytes ''zip'')),
           (''linux-x64'', Dir [(''include'', File (Bytes ''''))])], None)
   \<and> download_and_extract
     (\<lambda>u. Some (''zip'', Some [(''out/Release-linux-x64/'', ''''),
                                (''out/Release-linux-x64/include/'', '''')]))
     (dl_url (resolve ''m126'' (snd (platforms ! 1)))) (Dir []) ''linux-x64''
     ''out/Release-linux-x64''
   = (Dir [(''linux-x64.zip'', File (Bytes ''zip'')),
           (''linux-x64'', Dir [(''include'', File (Bytes ''''))])], Some [''linux-x64''])"
  by code_simp

section \<open>Where the headers come from\<close>

text \<open>
  Claim C9.  The Header Assembler walks the temp directory, not the staged platforms.
  In this run the temp directory holds a directory \<open>linux-x64\<close> with headers from an
  earlier run; every download fails but that of \<open>windows-x64\<close>, whose archive has no
  headers.  The run completes with \<open>windows-x64\<close> as the only staged platform, and the
  bundle holds \<open>include/old.h\<close>, copied from the directory of \<open>linux-x64\<close>.
\<close>

theorem headers_from_leftover_directory:
  "(let r = main (\<lambda>u. if u = dl_url (resolve ''m126'' (snd (platforms ! 3)))
                         then Some (''zip'', Some [(''out/Release-windows-x64/skia.lib'', ''S'')])
                         else None)
                ''m126''
                (Some (Dir [(''linux-x64'',
                   Dir [(''include'', Dir [(''old.h'', File (Bytes ''old''))])])]))
                None
    in status r = Completed
       \<and> map fst (extracted_platforms r) = [''windows-x64'']
       \<and> (case temp_after r of
             Some temp \<Rightarrow> lookup temp [''windows-x64'', ''include''] = None
                          \<and> lookup temp [''linux-x64.zip''] = None
           | None \<Rightarrow> False)
       \<and> (case bundle_after r of
             Some b \<Rightarrow> lookup b [''include'', ''old.h''] = Some (File (Bytes ''old''))
                       \<and> lookup b [''include'', ''skia.h''] = Some (File (Bytes umbrella_content))
           | None \<Rightarrow> False))"
  by code_simp

section \<open>The run as a whole\<close>

lemma stage_loop_extracted:
  "stage_loop net download_info extracted temp = (temp', extracted') \<Longrightarrow>
   set extracted' \<subseteq> set extracted \<union> set download_info"
proof (induction download_info arbitrary: extracted temp)
  case Nil
  then show ?case by simp
next
  case (Cons pi rest)
  obtain platform info where pi: "pi = (platform, info)" by (cases pi)
  obtain temp1 d where dl:
    "download_and_extract net (dl_url info) temp platform (dl_extract_path info) = (temp1, d)"
    by (cases "download_and_extract net (dl_url info) temp platform (dl_extract_path info)")
  show ?case
  proof (cases d)
    case None
    with Cons.prems pi dl have "stage_loop net rest extracted temp1 = (temp', extracted')"
      by simp
    from Cons.IH [OF this] show ?thesis by auto
  next
    case (Some extracted_dir)
    with Cons.prems pi dl
    have "stage_loop net rest (dict_set extracted platform info) temp1 = (temp', extracted')"
      by simp
    from Cons.IH [OF this] set_dict_set [of extracted platform info] pi
    show ?thesis by auto
  qed
qed




section \<open>Filesystem calls and the placeholder header\<close>

lemma map_of_dict_set: "map_of (dict_set d k v) = (map_of d)(k \<mapsto> v)"
  by (induction d) auto

lemma map_of_snoc:
  "map_of (es @ [(c, m)]) k = (case map_of es k of None \<Rightarrow> (if k = c then Some m else None) | Some x \<Rightarrow> Some x)"
  by (auto simp: map_add_def split: option.splits)

lemma put_lookup:
  "put n p f = Inr n' \<Longrightarrow> \<exists>m. f (lookup n p) = Inr m \<and> lookup n' p = Some m"
proof (induction n p f arbitrary: n' rule: put.induct)
  case (1 n f)
  then show ?case by simp
next
  case (2 n c cs f)
  from "2.prems" obtain es where n: "n = Dir es" by (cases n) auto
  show ?case
  proof (cases "map_of es c")
    case None
    with "2.prems" n have cs: "cs = []" by (auto split: if_splits)
    with "2.prems" n None obtain m where m: "f None = Inr m" and n': "n' = Dir (es @ [(c, m)])"
      by (cases "f None") auto
    from n None cs m n' show ?thesis by (simp add: map_of_snoc del: map_of_append)
  next
    case (Some m0)
    with "2.prems" n obtain m' where p: "put m0 cs f = Inr m'" and n': "n' = Dir (dict_set es c m')"
      by (cases "put m0 cs f") auto
    from "2.IH" [OF n Some p] n Some n' show ?thesis by (simp add: map_of_dict_set)
  qed
qed

lemma open_w_lookup:
  assumes "open_w n p d = Inr n'"
  shows "lookup n' p = Some (File d)"
proof -
  from put_lookup [OF assms [unfolded open_w_def]]
  show ?thesis by (auto split: option.splits node.splits)
qed

lemma put_frame:
  "put n (c # cs) f = Inr n' \<Longrightarrow> c' \<noteq> c \<Longrightarrow> lookup n' (c' # q) = lookup n (c' # q)"
proof -
  assume a: "put n (c # cs) f = Inr n'" and c: "c' \<noteq> c"
  from a obtain es where n: "n = Dir es" by (cases n) auto
  show ?thesis
  proof (cases "map_of es c")
    case None
    with a n have cs: "cs = []" by (auto split: if_splits)
    with a n None obtain m where m: "f None = Inr m" and n': "n' = Dir (es @ [(c, m)])"
      by (cases "f None") auto
    from n n' c show ?thesis by (simp add: map_of_snoc del: map_of_append split: option.splits)
  next
    case (Some m0)
    with a n obtain m' where p: "put m0 cs f = Inr m'" and n': "n' = Dir (dict_set es c m')"
      by (cases "put m0 cs f") auto
    from n n' c show ?thesis by (simp add: map_of_dict_set)
  qed
qed

lemma mkdir_single:
  "mkdir (Dir bs) [c] False True =
     (case map_of bs c of
        None \<Rightarrow> Inr (Dir (bs @ [(c, Dir [])]))
      | Some (Dir ds) \<Rightarrow> Inr (Dir bs)
      | Some (File d) \<Rightarrow> Inl FileExistsError)"
  by (subst mkdir.simps) (simp add: os_mkdir_def is_dir_def split: option.splits node.splits)

lemma open_w_child:
  assumes "map_of bs c = Some (Dir ds)" and "\<not> is_dir (Dir bs) [c, s]"
  shows "\<exists>n'. open_w (Dir bs) [c, s] d = Inr n'"
  using assms by (simp add: open_w_def is_dir_def split: option.splits node.splits)

lemma header_source_None:
  "header_source es = None \<longleftrightarrow> (\<forall>(name, platform_dir) \<in> set es. \<not> exists platform_dir [''include''])"
proof (induction es)
  case Nil
  then show ?case by simp
next
  case (Cons e es)
  obtain name platform_dir where e: "e = (name, platform_dir)" by (cases e)
  show ?case
  proof (cases platform_dir)
    case (File d)
    with Cons e show ?thesis by (simp add: exists_def)
  next
    case (Dir ds)
    with Cons e show ?thesis by (cases "map_of ds ''include''") (simp_all add: exists_def)
  qed
qed

text \<open>
  When no child of the temp directory has an entry \<open>include\<close>, the header assembler
  returns and leaves the placeholder text in \<open>include/skia.h\<close>, provided the bundle can
  be written where the code writes: \<open>include\<close> is not a regular file and
  \<open>include/skia.h\<close> is not a directory.
\<close>

lemma placeholder_header:
  assumes "\<forall>(name, platform_dir) \<in> set es. \<not> exists platform_dir [''include'']"
    and "\<not> is_file (Dir bs) [''include'']"
    and "\<not> is_dir (Dir bs) [''include'', ''skia.h'']"
  shows "\<exists>bundle'. create_umbrella_header (Dir bs) (Dir es) version = (bundle', Inr ())
           \<and> lookup bundle' [''include'', ''skia.h''] = Some (File (Bytes (minimal_header version)))"
proof -
  from assms(1) have hs: "header_source es = None" by (simp add: header_source_None)
  obtain bs1 ds where mk: "mkdir (Dir bs) [''include''] False True = Inr (Dir bs1)"
    and inc: "map_of bs1 ''include'' = Some (Dir ds)"
    and skia: "\<not> is_dir (Dir bs1) [''include'', ''skia.h'']"
  proof (cases "map_of bs ''include''")
    case None
    then have "mkdir (Dir bs) [''include''] False True = Inr (Dir (bs @ [(''include'', Dir [])]))"
      by (simp add: mkdir_single del: mkdir.simps)
    moreover from None have "map_of (bs @ [(''include'', Dir [])]) ''include'' = Some (Dir [])"
      by (simp add: map_of_snoc del: map_of_append)
    moreover from this have "\<not> is_dir (Dir (bs @ [(''include'', Dir [])])) [''include'', ''skia.h'']"
      by (simp add: is_dir_def del: map_of_append)
    ultimately show ?thesis by (rule that)
  next
    case (Some m)
    with assms(2) obtain ds where m: "m = Dir ds" by (cases m) (simp_all add: is_file_def)
    with Some have "mkdir (Dir bs) [''include''] False True = Inr (Dir bs)"
      by (simp add: mkdir_single del: mkdir.simps)
    with Some m assms(3) show ?thesis by (intro that [of bs ds]) simp_all
  qed
  from open_w_child [OF inc skia]
  obtain bundle' where w:
    "open_w (Dir bs1) [''include'', ''skia.h''] (Bytes (minimal_header version)) = Inr bundle'"
    by blast
  from mk hs w have "create_umbrella_header (Dir bs) (Dir es) version = (bundle', Inr ())"
    by (simp add: create_umbrella_header_def attempt_def del: mkdir.simps)
  with open_w_lookup [OF w] show ?thesis by blast
qed

text \<open>
  Claim C6.  The fallback is decided by the scan of the temp directory, not by the staged
  platforms.  In this run the temp directory holds a directory \<open>linux-x64\<close> with headers
  from an earlier run; every download fails but that of \<open>windows-x64\<close>, whose archive
  has no headers.  No staged platform has a directory \<open>include\<close>, the run completes, and
  \<open>include/skia.h\<close> holds the umbrella text with its include directives, not the
  placeholder text.
\<close>

theorem placeholder_replaced_by_leftover_headers:
  "(let r = main (\<lambda>u. if u = dl_url (resolve ''m126'' (snd (platforms ! 3)))
                         then Some (''zip'', Some [(''out/Release-windows-x64/skia.lib'', ''S'')])
                         else None)
                ''m126''
                (Some (Dir [(''linux-x64'',
                   Dir [(''include'', Dir [(''old.h'', File (Bytes ''old''))])])]))
                None
    in status r = Completed
       \<and> map fst (extracted_platforms r) = [''windows-x64'']
       \<and> (case temp_after r of
             Some temp \<Rightarrow> list_all (\<lambda>platform. \<not> exists temp [platform, ''include''])
                            (map fst (extracted_platforms r))
           | None \<Rightarrow> False)
       \<and> (case bundle_after r of
             Some b \<Rightarrow> lookup b [''include'', ''skia.h''] = Some (File (Bytes umbrella_content))
                       \<and> lookup b [''include'', ''skia.h''] \<noteq> Some (File (Bytes (minimal_header ''m126'')))
           | None \<Rightarrow> False))"
  by code_simp

section \<open>What a completed run leaves in the bundle\<close>

lemma os_mkdir_root: "os_mkdir n [] = Inl FileExistsError"
  by (simp add: os_mkdir_def)

lemma mkdir_frame:
  "mkdir n p parents exist_ok = Inr n' \<Longrightarrow> (p \<noteq> [] \<longrightarrow> hd p \<noteq> c') \<Longrightarrow>
   lookup n' (c' # q) = lookup n (c' # q)"
proof (induction n p parents exist_ok arbitrary: n' rule: mkdir.induct)
  case (1 n p parents exist_ok)
  note eq = "1.prems"(1) [unfolded mkdir.simps [of n p parents exist_ok]]
  show ?case
  proof (cases "os_mkdir n p")
    case (Inr n1)
    with eq have n': "n' = n1" by simp
    from Inr obtain c cs where p: "p = c # cs" by (cases p) (simp_all add: os_mkdir_root)
    with "1.prems"(2) have "c' \<noteq> c" by simp
    from put_frame [OF Inr [unfolded os_mkdir_def p] this] n' show ?thesis by simp
  next
    case (Inl e)
    show ?thesis
    proof (cases "e = FileNotFoundError")
      case True
      with eq Inl have np: "\<not> (\<not> parents \<or> p = [])" by (auto split: if_splits)
      with eq Inl True obtain n1 where
        m1: "mkdir n (butlast p) True True = Inr n1" and m2: "mkdir n1 p False exist_ok = Inr n'"
        by (cases "mkdir n (butlast p) True True") (simp_all del: mkdir.simps)
      from np "1.prems"(2) have b: "butlast p \<noteq> [] \<longrightarrow> hd (butlast p) \<noteq> c'"
        by (cases p) (auto split: if_splits)
      from "1.IH"(1) [OF Inl True np m1 b] "1.IH"(2) [OF Inl True np m1 m2 "1.prems"(2)]
      show ?thesis by simp
    next
      case False
      with eq Inl have "n' = n" by (auto split: if_splits)
      then show ?thesis by simp
    qed
  qed
qed

lemma open_w_frame:
  "open_w n (c # cs) d = Inr n' \<Longrightarrow> c' \<noteq> c \<Longrightarrow> lookup n' (c' # q) = lookup n (c' # q)"
  unfolding open_w_def by (rule put_frame)

lemma copy2_frame:
  assumes "copy2 src name (c # cs) b = Inr b'" and "c' \<noteq> c"
  shows "lookup b' (c' # q) = lookup b (c' # q)"
proof -
  from assms(1) obtain d where src: "src = File d" by (cases src) (simp_all add: copy2_def Let_def)
  show ?thesis
  proof (cases "is_dir b (c # cs)")
    case True
    with assms(1) src have "open_w b (c # (cs @ parse_path name)) d = Inr b'"
      by (simp add: copy2_def)
    from open_w_frame [OF this assms(2)] show ?thesis .
  next
    case False
    with assms(1) src have "open_w b (c # cs) d = Inr b'"
      by (simp add: copy2_def)
    from open_w_frame [OF this assms(2)] show ?thesis .
  qed
qed

lemma copy_lib_files_frame:
  "copy_lib_files platform (c # cs) lib_files libs0 log0 b = (b', r) \<Longrightarrow> c' \<noteq> c \<Longrightarrow>
   lookup b' (c' # q) = lookup b (c' # q)"
proof (induction lib_files arbitrary: libs0 log0 b)
  case Nil
  then show ?case by simp
next
  case (Cons f rest)
  obtain source_lib src where f: "f = (source_lib, src)" by (cases f)
  show ?case
  proof (cases "name_of source_lib = ''icudtl.dat''")
    case True
    with Cons.prems(1) f have "copy_lib_files platform (c # cs) rest libs0 log0 b = (b', r)"
      by simp
    from Cons.IH [OF this Cons.prems(2)] show ?thesis .
  next
    case False
    let ?target = "(c # cs) @ parse_path (target_name_of platform (name_of source_lib))"
    show ?thesis
    proof (cases "copy2 src (name_of source_lib) ?target b")
      case (Inl e)
      with Cons.prems(1) f False have "b' = b" by (simp add: Let_def)
      then show ?thesis by simp
    next
      case (Inr b1)
      with Cons.prems(1) f False have
        "copy_lib_files platform (c # cs) rest (libs0 @ [entry_of platform (name_of source_lib)])
           (log0 @ [(source_lib, ?target)]) b1 = (b', r)"
        by (simp add: Let_def)
      from Cons.IH [OF this Cons.prems(2)] copy2_frame [OF Inr [simplified] Cons.prems(2)]
      show ?thesis by simp
    qed
  qed
qed

lemma copy_libraries_loop_frame:
  "copy_libraries_loop temp download_info libs0 log0 b = (b', r) \<Longrightarrow>
   \<forall>(platform, info) \<in> set download_info. \<exists>c cs. parse_path platform = c # cs \<and> c' \<noteq> c \<Longrightarrow>
   lookup b' (c' # q) = lookup b (c' # q)"
proof (induction download_info arbitrary: libs0 log0 b)
  case Nil
  then show ?case by simp
next
  case (Cons pi rest)
  obtain platform info where pi: "pi = (platform, info)" by (cases pi)
  from Cons.prems(2) pi obtain c cs where pp: "parse_path platform = c # cs" and c: "c' \<noteq> c"
    by auto
  from Cons.prems(2) have rest:
    "\<forall>(platform, info) \<in> set rest. \<exists>c cs. parse_path platform = c # cs \<and> c' \<noteq> c"
    by simp
  show ?case
  proof (cases "mkdir b (c # cs) False True")
    case (Inl e)
    with Cons.prems(1) pi pp have "b' = b" by (simp add: Let_def del: mkdir.simps)
    then show ?thesis by simp
  next
    case (Inr b1)
    from mkdir_frame [OF Inr] c have f1: "lookup b1 (c' # q) = lookup b (c' # q)" by simp
    show ?thesis
    proof (cases "lookup temp (c # cs)")
      case None
      with Cons.prems(1) pi pp Inr have
        "copy_libraries_loop temp rest libs0 log0 b1 = (b', r)"
        by (simp add: Let_def del: mkdir.simps)
      from Cons.IH [OF this rest] f1 show ?thesis by simp
    next
      case (Some src)
      let ?run = "copy_lib_files platform (c # cs) (lib_files_of platform (c # cs) src) [] log0 b1"
      from Cons.prems(1) pi pp Inr Some have unfolded:
        "(case ?run of
            (b2, Inl e) \<Rightarrow> (b2, Inl e)
          | (b2, Inr (platform_libraries, log')) \<Rightarrow>
              copy_libraries_loop temp rest (dict_set libs0 platform platform_libraries) log' b2)
         = (b', r)"
        by (simp add: Let_def del: mkdir.simps)
      obtain b2 r2 where run: "?run = (b2, r2)" by (cases ?run)
      from copy_lib_files_frame [OF run c] f1
      have f2: "lookup b2 (c' # q) = lookup b (c' # q)" by simp
      show ?thesis
      proof (cases r2)
        case (Inl e)
        with unfolded run have "b' = b2" by simp
        with f2 show ?thesis by simp
      next
        case (Inr pl)
        obtain platform_libraries log' where pl: "pl = (platform_libraries, log')" by (cases pl)
        with unfolded run Inr have
          "copy_libraries_loop temp rest (dict_set libs0 platform platform_libraries) log' b2 = (b', r)"
          by simp
        from Cons.IH [OF this rest] f2 show ?thesis by simp
      qed
    qed
  qed
qed

lemma copytree_frame:
  "copytree src dst b = (b', errs) \<Longrightarrow> dst \<noteq> [] \<Longrightarrow> hd dst \<noteq> c' \<Longrightarrow>
   lookup b' (c' # q) = lookup b (c' # q)"
  and copytree_entries_frame:
  "copytree_entries es dst b = (b', errs) \<Longrightarrow> dst \<noteq> [] \<Longrightarrow> hd dst \<noteq> c' \<Longrightarrow>
   lookup b' (c' # q) = lookup b (c' # q)"
proof (induction src dst b and es dst b arbitrary: b' errs and b' errs
    rule: copytree_copytree_entries.induct)
  case (1 d dst b)
  then show ?case by simp
next
  case (2 es dst b)
  show ?case
  proof (cases "mkdir b dst True True")
    case (Inl e)
    with "2.prems"(1) have "b' = b" by (simp del: mkdir.simps)
    then show ?thesis by simp
  next
    case (Inr b1)
    with "2.prems"(1) have "copytree_entries es dst b1 = (b', errs)" by (simp del: mkdir.simps)
    from "2.IH" [OF Inr this "2.prems"(2,3)] mkdir_frame [OF Inr] "2.prems"(2,3)
    show ?thesis by simp
  qed
next
  case (3 dst b)
  then show ?case by simp
next
  case (4 name src rest dst b)
  let ?target = "dst @ parse_path name"
  let ?first = "(case src of
            File d \<Rightarrow>
              (case copy2 src name ?target b of
                 Inl e \<Rightarrow> (b, [e]) | Inr bundle' \<Rightarrow> (bundle', []))
          | Dir es \<Rightarrow> copytree src ?target b)"
  obtain b1 e1 where first: "?first = (b1, e1)" by (cases ?first)
  obtain b2 e2 where second: "copytree_entries rest dst b1 = (b2, e2)"
    by (cases "copytree_entries rest dst b1")
  from "4.prems"(1) first second have b': "b' = b2" by (simp add: Let_def)
  from "4.prems"(2) obtain c cs where dst: "dst = c # cs" by (cases dst) simp_all
  with "4.prems"(3) have c: "c' \<noteq> c" by simp
  have f1: "lookup b1 (c' # q) = lookup b (c' # q)"
  proof (cases src)
    case (File d)
    show ?thesis
    proof (cases "copy2 src name ?target b")
      case (Inl e)
      with first File have "b1 = b" by simp
      then show ?thesis by simp
    next
      case (Inr b'')
      with first File have "b1 = b''" by simp
      with copy2_frame [OF Inr [unfolded dst, simplified] c] show ?thesis by simp
    qed
  next
    case (Dir x2)
    with first have "copytree src ?target b = (b1, e1)" by simp
    from "4.IH"(1) [OF Dir this] "4.prems"(2,3) show ?thesis by simp
  qed
  from "4.IH"(2) [OF refl first [symmetric] second "4.prems"(2,3)] f1 b'
  show ?case by simp
qed

lemma attempt_Inr:
  "attempt n r = (n', Inr u) \<Longrightarrow> r = Inr n'"
  by (cases r) (simp_all add: attempt_def)

lemma attempt_frame:
  assumes "attempt n (open_w n (c # cs) d) = (n', r)" and "c' \<noteq> c"
  shows "lookup n' (c' # q) = lookup n (c' # q)"
proof (cases "open_w n (c # cs) d")
  case (Inl e)
  with assms(1) have "n' = n" by (simp add: attempt_def)
  then show ?thesis by simp
next
  case (Inr n1)
  with assms(1) have "n' = n1" by (simp add: attempt_def)
  with open_w_frame [OF Inr assms(2)] show ?thesis by simp
qed

lemma create_module_map_ok:
  assumes "create_module_map b = (b', Inr u)"
  shows "lookup b' [''module.modulemap''] = Some (File (Bytes module_content))"
  using open_w_lookup [OF attempt_Inr [OF assms [unfolded create_module_map_def]]] .

lemma create_umbrella_header_ok:
  assumes "create_umbrella_header b temp version = (b', Inr u)"
  shows "(lookup b' [''include'', ''skia.h''] = Some (File (Bytes umbrella_content))
          \<or> lookup b' [''include'', ''skia.h''] = Some (File (Bytes (minimal_header version))))
       \<and> (c' \<noteq> ''include'' \<longrightarrow> lookup b' (c' # q) = lookup b (c' # q))"
proof (cases "mkdir b [''include''] False True")
  case (Inl e)
  with assms show ?thesis by (simp add: create_umbrella_header_def del: mkdir.simps)
next
  case (Inr b1)
  from mkdir_frame [OF Inr]
  have f1: "c' \<noteq> ''include'' \<longrightarrow> lookup b1 (c' # q) = lookup b (c' # q)" by simp
  show ?thesis
  proof (cases temp)
    case (File d)
    with assms Inr show ?thesis by (simp add: create_umbrella_header_def del: mkdir.simps)
  next
    case (Dir es)
    show ?thesis
    proof (cases "header_source es")
      case None
      with assms Inr Dir have a:
        "attempt b1 (open_w b1 [''include'', ''skia.h''] (Bytes (minimal_header version))) = (b', Inr u)"
        by (simp add: create_umbrella_header_def del: mkdir.simps)
      from open_w_lookup [OF attempt_Inr [OF a]] attempt_frame [OF a] f1
      show ?thesis by simp
    next
      case (Some ns)
      obtain name source_include_dir where ns: "ns = (name, source_include_dir)" by (cases ns)
      obtain b2 errors where ct: "copytree source_include_dir [''include''] b1 = (b2, errors)"
        by (cases "copytree source_include_dir [''include''] b1")
      from copytree_frame [OF ct] f1
      have f2: "c' \<noteq> ''include'' \<longrightarrow> lookup b2 (c' # q) = lookup b (c' # q)" by simp
      show ?thesis
      proof (cases errors)
        case Nil
        with assms Inr Dir Some ns ct have a:
          "attempt b2 (open_w b2 [''include'', ''skia.h''] (Bytes umbrella_content)) = (b', Inr u)"
          by (simp add: create_umbrella_header_def del: mkdir.simps)
        from open_w_lookup [OF attempt_Inr [OF a]] attempt_frame [OF a] f2
        show ?thesis by simp
      next
        case (Cons e errors')
        with assms Inr Dir Some ns ct show ?thesis
          by (simp add: create_umbrella_header_def del: mkdir.simps)
      qed
    qed
  qed
qed

lemma create_info_json_frame:
  assumes "create_info_json b version download_info all_libraries = (b', r)"
    and "c' \<noteq> ''info.json''"
  shows "lookup b' (c' # q) = lookup b (c' # q)"
proof (cases "build_info_data version download_info all_libraries")
  case (Inl e)
  with assms(1) have "b' = b" by (simp add: create_info_json_def)
  then show ?thesis by simp
next
  case (Inr info)
  with assms(1) have "attempt b (open_w b [''info.json''] (Json info)) = (b', r)"
    by (simp add: create_info_json_def)
  from attempt_frame [OF this assms(2)] show ?thesis .
qed

lemma catalog_paths:
  assumes "(platform, info) \<in> set (get_download_info version)"
  shows "parse_path platform = [platform] \<and> platform \<noteq> ''include''
         \<and> platform \<noteq> ''module.modulemap''"
  using assms unfolding get_download_info_unfold by (auto simp: parse_path_def)

lemma assemble_keeps_header:
  assumes s1: "create_module_map b = (b1, Inr u1)"
    and s2: "create_umbrella_header b1 temp version = (b2, Inr u2)"
    and a: "assemble b temp version extracted = (b', r)"
    and sub: "set extracted \<subseteq> set (get_download_info version)"
  shows "(lookup b' [''include'', ''skia.h''] = Some (File (Bytes umbrella_content))
          \<or> lookup b' [''include'', ''skia.h''] = Some (File (Bytes (minimal_header version))))
       \<and> lookup b' [''module.modulemap''] = Some (File (Bytes module_content))"
proof -
  have inc: "\<forall>(platform, info) \<in> set extracted. \<exists>c cs. parse_path platform = c # cs \<and> ''include'' \<noteq> c"
    using sub catalog_paths by fastforce
  have mm: "\<forall>(platform, info) \<in> set extracted. \<exists>c cs. parse_path platform = c # cs \<and> ''module.modulemap'' \<noteq> c"
    using sub catalog_paths by fastforce
  note m1 = create_module_map_ok [OF s1]
  note h2 = create_umbrella_header_ok [OF s2, of "''module.modulemap''" "[]"]
  obtain b3 r3 where s3: "copy_libraries b2 temp extracted = (b3, r3)"
    by (cases "copy_libraries b2 temp extracted")
  note l3 = copy_libraries_loop_frame [OF s3 [unfolded copy_libraries_def]]
  have keep: "lookup b' [''include'', ''skia.h''] = lookup b3 [''include'', ''skia.h'']
      \<and> lookup b' [''module.modulemap''] = lookup b3 [''module.modulemap'']"
  proof (cases r3)
    case (Inl e)
    with a s1 s2 s3 have "b' = b3" by (simp add: assemble_def and_then_def)
    then show ?thesis by simp
  next
    case (Inr x)
    obtain all_libraries log where x: "x = (all_libraries, log)" by (cases x)
    with a s1 s2 s3 Inr have s4: "create_info_json b3 version extracted all_libraries = (b', r)"
      by (simp add: assemble_def and_then_def)
    from create_info_json_frame [OF s4, of "''include''" "[''skia.h'']"]
      create_info_json_frame [OF s4, of "''module.modulemap''" "[]"]
    show ?thesis by simp
  qed
  from keep h2 l3 [OF inc, of "[''skia.h'']"]
  have "lookup b' [''include'', ''skia.h''] = Some (File (Bytes umbrella_content))
          \<or> lookup b' [''include'', ''skia.h''] = Some (File (Bytes (minimal_header version)))"
    by simp
  moreover from keep m1 h2 l3 [OF mm, of "[]"]
  have "lookup b' [''module.modulemap''] = Some (File (Bytes module_content))"
    by simp
  ultimately show ?thesis ..
qed

lemma bundle_after_assemble:
  assumes "mkdir_root temp0 = Inr temp" and "mkdir_root bundle0 = Inr b"
    and "stage_loop net (get_download_info version) [] temp = (temp', extracted)"
    and "extracted \<noteq> []"
    and "assemble b temp' version extracted = (b', r)"
  shows "bundle_after (main net version temp0 bundle0) = Some b'"
  using assms by (cases r) (simp_all add: main_def)

text \<open>
  Claim C10, amended.  Whenever the header assembler returns in a run that reached the
  assembly, the bundle that the run leaves holds the regular file \<open>include/skia.h\<close>,
  with the umbrella text or the placeholder text, and \<open>module.modulemap\<close> with the
  fixed content that names \<open>include/skia.h\<close>, whether the later steps complete or
  raise: the library copies and the manifest are written elsewhere and leave both files
  alone.
\<close>

theorem header_after_assembler_returns:
  assumes "mkdir_root temp0 = Inr temp" and "mkdir_root bundle0 = Inr b"
    and "stage_loop net (get_download_info version) [] temp = (temp', extracted)"
    and "extracted \<noteq> []"
    and "create_module_map b = (b1, Inr u1)"
    and "create_umbrella_header b1 temp' version = (b2, Inr u2)"
  shows "\<exists>b'. bundle_after (main net version temp0 bundle0) = Some b'
           \<and> (lookup b' [''include'', ''skia.h''] = Some (File (Bytes umbrella_content))
                \<or> lookup b' [''include'', ''skia.h''] = Some (File (Bytes (minimal_header version))))
           \<and> lookup b' [''module.modulemap''] = Some (File (Bytes module_content))"
proof -
  obtain b' r where a: "assemble b temp' version extracted = (b', r)"
    by (cases "assemble b temp' version extracted")
  from stage_loop_extracted [OF assms(3)]
  have sub: "set extracted \<subseteq> set (get_download_info version)" by simp
  from bundle_after_assemble [OF assms(1-4) a] assemble_keeps_header [OF assms(5,6) a sub]
  show ?thesis by simp
qed

theorem header_after_assembler_returns_witness:
  "status (main (\<lambda>u. if u = dl_url (resolve ''m126'' (snd (platforms ! 1)))
               then Some (''zip'', Some [(''out/Release-linux-x64/dir.a/inner.a'', ''S'')])
               else None) ''m126'' None None) = Uncaught IsADirectoryError
   \<and> (\<exists>b'. bundle_after (main (\<lambda>u. if u = dl_url (resolve ''m126'' (snd (platforms ! 1)))
               then Some (''zip'', Some [(''out/Release-linux-x64/dir.a/inner.a'', ''S'')])
               else None) ''m126'' None None) = Some b'
           \<and> (lookup b' [''include'', ''skia.h''] = Some (File (Bytes umbrella_content))
                \<or> lookup b' [''include'', ''skia.h''] = Some (File (Bytes (minimal_header ''m126''))))
           \<and> lookup b' [''module.modulemap''] = Some (File (Bytes module_content)))"
proof -
  let ?net = "\<lambda>u. if u = dl_url (resolve ''m126'' (snd (platforms ! 1)))
               then Some (''zip'', Some [(''out/Release-linux-x64/dir.a/inner.a'', ''S'')])
               else None"
  have run: "status (main ?net ''m126'' None None) = Uncaught IsADirectoryError"
    by code_simp
  have h1: "mkdir_root None = Inr (Dir [])" by (simp add: mkdir_root_def)
  have h3: "stage_loop ?net (get_download_info ''m126'') [] (Dir []) =
      (Dir [(''linux-x64.zip'', File (Bytes ''zip'')),
            (''linux-x64'', Dir [(''dir.a'', Dir [(''inner.a'', File (Bytes ''S''))])])],
       [(''linux-x64'', resolve ''m126'' (snd (platforms ! 1)))])"
    by code_simp
  have h4: "[(''linux-x64'', resolve ''m126'' (snd (platforms ! 1)))] \<noteq> []" by simp
  have h5: "create_module_map (Dir []) =
      (Dir [(''module.modulemap'', File (Bytes module_content))], Inr ())"
    by code_simp
  have h6: "create_umbrella_header (Dir [(''module.modulemap'', File (Bytes module_content))])
      (Dir [(''linux-x64.zip'', File (Bytes ''zip'')),
            (''linux-x64'', Dir [(''dir.a'', Dir [(''inner.a'', File (Bytes ''S''))])])]) ''m126'' =
      (Dir [(''module.modulemap'', File (Bytes module_content)),
            (''include'', Dir [(''skia.h'', File (Bytes (minimal_header ''m126'')))])], Inr ())"
    by code_simp
  note t = header_after_assembler_returns [OF h1 h1 h3 h4 h5 h6]
  show ?thesis by (rule conjI [OF run t])
qed


text \<open>
  The claim as stated fails: when the headers of the staged platform contain a directory
  named \<open>skia.h\<close>, the run reaches assembly, writes \<open>module.modulemap\<close>, copies the
  headers, and then stops with \<open>IsADirectoryError\<close> at the write of \<open>include/skia.h\<close>,
  which is a directory of the bundle and not a file.
\<close>

theorem header_directory_named_skia_h:
  "(let r = main (\<lambda>u. if u = dl_url (resolve ''m126'' (snd (platforms ! 1)))
                         then Some (''zip'',
                                Some [(''out/Release-linux-x64/libskia.a'', ''S''),
                                      (''out/Release-linux-x64/include/skia.h/core.h'', ''H'')])
                         else None)
                ''m126'' None None
    in status r = Uncaught IsADirectoryError
       \<and> map fst (extracted_platforms r) = [''linux-x64'']
       \<and> (case bundle_after r of
             Some b \<Rightarrow> lookup b [''module.modulemap''] = Some (File (Bytes module_content))
                       \<and> is_dir b [''include'', ''skia.h'']
                       \<and> \<not> is_file b [''include'', ''skia.h'']
           | None \<Rightarrow> False))"
  by code_simp

end
